theory Spec2Isabelle
  imports Complex_Main
begin

section \<open>Values, exceptions and the random source\<close>

text \<open>
  The agents of \<^verbatim>\<open>agent_nn.py\<close> compute on numpy arrays of floats. An array of rank one
  is a list of reals, an array of rank two a list of rows, an array of rank three a list
  of matrices. Floats are idealised as real numbers: rounding and overflow are not
  modelled, and where numpy would carry on with \<^verbatim>\<open>nan\<close> (a division \<^verbatim>\<open>0/0\<close> of arrays,
  a square root of a negative number) the model stops with \<open>NotANumber\<close>, since no real
  number stands for that value. The other errors are the exceptions Python raises.
  The functions describe arrays of matching shapes (the rows of the action set and of the
  history have as many entries as the rows of \<open>W1\<close>); broadcasting of other shapes is not
  modelled.
\<close>

type_synonym vec = "real list"

type_synonym mat = "real list list"

datatype error = IndexError | ValueError | ZeroDivisionError | NotANumber

text \<open>
  \<^verbatim>\<open>numpy.random\<close> is a global generator. It is modelled as the stream of raw values it
  will still produce; every draw reads the head of the stream and moves on.
  \<^verbatim>\<open>rd.rand()\<close> is uniform on \<open>[0, 1)\<close>, \<^verbatim>\<open>rd.randn()\<close> is any real,
  \<^verbatim>\<open>rd.randint(high)\<close> is an integer in \<open>[0, high)\<close> and raises \<^verbatim>\<open>ValueError\<close> when
  \<open>high \<le> 0\<close> (or when the requested size is negative).
\<close>

type_synonym rng = "nat \<Rightarrow> real"

definition advance :: "nat \<Rightarrow> rng \<Rightarrow> rng" where
  "advance k g = (\<lambda>n. g (n + k))"

definition rd_rand :: "rng \<Rightarrow> real \<times> rng" where
  "rd_rand g = (frac (g 0), advance 1 g)"

definition rd_randn :: "rng \<Rightarrow> real \<times> rng" where
  "rd_randn g = (g 0, advance 1 g)"

definition rd_randint :: "int \<Rightarrow> rng \<Rightarrow> (error + nat) \<times> rng" where
  "rd_randint high g =
     (if high \<le> 0 then (Inl ValueError, g)
      else (Inr (nat (\<lfloor>g 0\<rfloor> mod high)), advance 1 g))"

definition rd_randint_size :: "int \<Rightarrow> int \<Rightarrow> rng \<Rightarrow> (error + nat list) \<times> rng" where
  "rd_randint_size high sz g =
     (if high \<le> 0 \<or> sz < 0 then (Inl ValueError, g)
      else (Inr (map (\<lambda>k. nat (\<lfloor>g k\<rfloor> mod high)) [0..<nat sz]), advance (nat sz) g))"

definition rd_rand_shape :: "nat \<Rightarrow> nat \<Rightarrow> rng \<Rightarrow> mat \<times> rng" where
  "rd_rand_shape rows cols g =
     (map (\<lambda>b. map (\<lambda>j. frac (g (b * cols + j))) [0..<cols]) [0..<rows],
      advance (rows * cols) g)"

definition rd_randn_vec :: "nat \<Rightarrow> rng \<Rightarrow> vec \<times> rng" where
  "rd_randn_vec n g = (map g [0..<n], advance n g)"

definition rd_randn_shape :: "nat \<Rightarrow> nat \<Rightarrow> rng \<Rightarrow> mat \<times> rng" where
  "rd_randn_shape rows cols g =
     (map (\<lambda>b. map (\<lambda>j. g (b * cols + j)) [0..<cols]) [0..<rows],
      advance (rows * cols) g)"

definition rd_randn_shape3 :: "nat \<Rightarrow> nat \<Rightarrow> nat \<Rightarrow> rng \<Rightarrow> mat list \<times> rng" where
  "rd_randn_shape3 n rows cols g =
     (map (\<lambda>m. map (\<lambda>b. map (\<lambda>j. g ((m * rows + b) * cols + j)) [0..<cols]) [0..<rows])
        [0..<n],
      advance (n * rows * cols) g)"

subsection \<open>Array operations of numpy\<close>

text \<open>An integer index on an axis of length \<open>n\<close>: negative indices count from the end.\<close>

definition np_index :: "nat \<Rightarrow> int \<Rightarrow> error + nat" where
  "np_index n i =
     (if 0 \<le> i \<and> i < int n then Inr (nat i)
      else if - int n \<le> i \<and> i < 0 then Inr (nat (int n + i))
      else Inl IndexError)"

text \<open>\<^verbatim>\<open>arr[batch_ind]\<close> with an array of indices copies the rows named.\<close>

definition np_take :: "'a list \<Rightarrow> nat list \<Rightarrow> error + 'a list" where
  "np_take arr ind =
     (if \<forall>k \<in> set ind. k < length arr then Inr (map (\<lambda>k. arr ! k) ind)
      else Inl IndexError)"

text \<open>\<^verbatim>\<open>np.argmax\<close>: the first index of a largest entry; \<^verbatim>\<open>ValueError\<close> on an empty array.\<close>

fun argmax_from :: "nat \<Rightarrow> real \<Rightarrow> nat \<Rightarrow> vec \<Rightarrow> nat" where
  "argmax_from best bv k [] = best"
| "argmax_from best bv k (x # xs) =
     (if bv < x then argmax_from k x (Suc k) xs else argmax_from best bv (Suc k) xs)"

definition np_argmax :: "vec \<Rightarrow> error + nat" where
  "np_argmax xs = (case xs of [] \<Rightarrow> Inl ValueError | x # rest \<Rightarrow> Inr (argmax_from 0 x 1 rest))"

definition vec_scale :: "real \<Rightarrow> vec \<Rightarrow> vec" where
  "vec_scale c v = map (\<lambda>x. c * x) v"

definition vec_add :: "vec \<Rightarrow> vec \<Rightarrow> vec" where
  "vec_add u v = map2 (+) u v"

definition vec_sub :: "vec \<Rightarrow> vec \<Rightarrow> vec" where
  "vec_sub u v = map2 (-) u v"

definition mat_scale :: "real \<Rightarrow> mat \<Rightarrow> mat" where
  "mat_scale c A = map (vec_scale c) A"

definition mat_add :: "mat \<Rightarrow> mat \<Rightarrow> mat" where
  "mat_add A B = map2 vec_add A B"

definition mat_sub :: "mat \<Rightarrow> mat \<Rightarrow> mat" where
  "mat_sub A B = map2 vec_sub A B"

definition ncols :: "mat \<Rightarrow> nat" where
  "ncols A = (case A of [] \<Rightarrow> 0 | r # _ \<Rightarrow> length r)"

text \<open>\<^verbatim>\<open>np.sum(A, axis=0)\<close> of an array with \<open>h\<close> columns.\<close>

definition sum_axis0 :: "nat \<Rightarrow> mat \<Rightarrow> vec" where
  "sum_axis0 h A = map (\<lambda>j. sum_list (map (\<lambda>r. r ! j) A)) [0..<h]"

text \<open>\<^verbatim>\<open>np.dot(A.T, X)\<close> for \<open>A\<close> with \<open>h\<close> columns and \<open>X\<close> with \<open>d\<close> columns.\<close>

definition dot_T :: "nat \<Rightarrow> nat \<Rightarrow> mat \<Rightarrow> mat \<Rightarrow> mat" where
  "dot_T h d A X =
     map (\<lambda>j. map (\<lambda>i. sum_list (map2 (\<lambda>r x. r ! j * x ! i) A X)) [0..<d]) [0..<h]"

section \<open>The single-network agents\<close>

text \<open>
  \<^verbatim>\<open>TwoLayerNNEpsilonGreedy\<close> and its subclasses \<^verbatim>\<open>TwoLayerNNEpsilonGreedyAnnealing\<close>
  (which overrides \<^verbatim>\<open>pick_action\<close>) and \<^verbatim>\<open>TwoLayerNNDropout\<close> (which overrides the
  forward pass, the backward pass and \<^verbatim>\<open>pick_action\<close>). The class of the object, with
  the parameter only that class has (\<^verbatim>\<open>epsilon_param\<close> or \<^verbatim>\<open>p\<close>), is the field
  \<open>variant\<close>; a method call on \<^verbatim>\<open>self\<close> dispatches on it.
\<close>

datatype variant = EpsilonGreedy real | EpsilonGreedyAnnealing real | Dropout real

record agent_base =
  actions :: mat
  num_actions :: int
  T :: int
  prior_var :: real
  noise_var :: real
  lr :: real
  num_gradient_steps :: int
  batch_size :: int
  lr_decay :: real
  leaky_coeff :: real
  action_hist :: mat

record agent = agent_base +
  W1 :: mat
  W2 :: vec
  variant :: variant
  reward_hist :: vec

type_synonym cache = "mat \<times> mat \<times> mat"

type_synonym dropout_cache = "mat \<times> mat \<times> mat \<times> bool list list \<times> mat"

subsection \<open>Forward and backward pass\<close>

text \<open>
  The three classes repeat the same lines on their own weights (\<^verbatim>\<open>self.W1\<close>,
  \<^verbatim>\<open>self.W2\<close>, or \<^verbatim>\<open>self.W1[m]\<close>, \<^verbatim>\<open>self.W2[m]\<close> in the ensemble). The lines are
  written once, with the weights as arguments:
  \<^item> \<open>affine\<close> is \<^verbatim>\<open>np.sum(input_actions[:, np.newaxis, :] * W1, axis=2)\<close>,
  \<^item> \<open>leaky_relu\<close> is \<^verbatim>\<open>np.maximum(leaky_coeff * affine_out, affine_out)\<close>,
  \<^item> \<open>readout\<close> is \<^verbatim>\<open>np.sum(relu_out * W2, axis=1)\<close>,
  \<^item> \<open>loss_dout\<close> is \<^verbatim>\<open>-(2 / noise_var) * (y - out)\<close>,
  \<^item> \<open>scale_rows\<close> is \<^verbatim>\<open>dout[:, np.newaxis] * relu_out\<close>,
  \<^item> \<open>outer\<close> is \<^verbatim>\<open>dout[:, np.newaxis] * W2\<close>,
  \<^item> \<open>relu_mask\<close> is \<^verbatim>\<open>(affine_out >= 0) + leaky_coeff * (affine_out < 0)\<close>,
  \<^item> \<open>apply_mask\<close> is the product of an array with a Boolean mask.
\<close>

definition affine :: "mat \<Rightarrow> mat \<Rightarrow> mat" where
  "affine W input_actions = map (\<lambda>x. map (\<lambda>w. sum_list (map2 (*) x w)) W) input_actions"

definition leaky_relu :: "real \<Rightarrow> mat \<Rightarrow> mat" where
  "leaky_relu c affine_out = map (map (\<lambda>v. max (c * v) v)) affine_out"

definition readout :: "mat \<Rightarrow> vec \<Rightarrow> vec" where
  "readout relu_out w2 = map (\<lambda>r. sum_list (map2 (*) r w2)) relu_out"

definition loss_dout :: "real \<Rightarrow> vec \<Rightarrow> vec \<Rightarrow> vec" where
  "loss_dout nv y out = map2 (\<lambda>yb ob. - (2 / nv) * (yb - ob)) y out"

definition scale_rows :: "vec \<Rightarrow> mat \<Rightarrow> mat" where
  "scale_rows dout A = map2 (\<lambda>d r. map (\<lambda>v. d * v) r) dout A"

definition outer :: "vec \<Rightarrow> vec \<Rightarrow> mat" where
  "outer dout w2 = map (\<lambda>d. map (\<lambda>v. d * v) w2) dout"

definition relu_mask :: "real \<Rightarrow> mat \<Rightarrow> mat" where
  "relu_mask c affine_out =
     map (map (\<lambda>v. (if v \<ge> 0 then 1 else 0) + c * (if v < 0 then 1 else 0))) affine_out"

definition apply_mask :: "mat \<Rightarrow> bool list list \<Rightarrow> mat" where
  "apply_mask A dropout_mask = map2 (map2 (\<lambda>v k. v * (if k then 1 else 0))) A dropout_mask"

definition nn_forward :: "mat \<Rightarrow> vec \<Rightarrow> real \<Rightarrow> mat \<Rightarrow> vec \<times> cache" where
  "nn_forward w1 w2 c input_actions =
     (let affine_out = affine w1 input_actions;
          relu_out = leaky_relu c affine_out;
          out = readout relu_out w2
      in (out, (input_actions, affine_out, relu_out)))"

definition nn_backward ::
  "mat \<Rightarrow> vec \<Rightarrow> real \<Rightarrow> real \<Rightarrow> vec \<Rightarrow> cache \<Rightarrow> vec \<Rightarrow> error + mat \<times> vec" where
  "nn_backward w1 w2 c nv out cache y =
     (case cache of (input_actions, affine_out, relu_out) \<Rightarrow>
        if nv = 0 then Inl ZeroDivisionError
        else
          let dout = loss_dout nv y out;
              dW2 = sum_axis0 (length w1) (scale_rows dout relu_out);
              drelu_out = outer dout w2;
              mask = relu_mask c affine_out;
              daffine_out = map2 (map2 (*)) mask drelu_out;
              dW1 = dot_T (length w1) (ncols w1) daffine_out input_actions
          in Inr (dW1, dW2))"

definition model_forward :: "agent \<Rightarrow> mat \<Rightarrow> vec \<times> cache" where
  "model_forward a input_actions = nn_forward (W1 a) (W2 a) (leaky_coeff a) input_actions"

definition model_backward :: "agent \<Rightarrow> vec \<Rightarrow> cache \<Rightarrow> vec \<Rightarrow> error + mat \<times> vec" where
  "model_backward a out cache y =
     nn_backward (W1 a) (W2 a) (leaky_coeff a) (noise_var a) out cache y"

text \<open>
  The dropout forward pass draws a mask of the shape of \<^verbatim>\<open>relu_out\<close> and goes on with it;
  \<open>dropout_forward_mask\<close> is the part of \<^verbatim>\<open>_model_forward\<close> after the draw.
\<close>

definition dropout_forward_mask ::
  "agent \<Rightarrow> bool list list \<Rightarrow> mat \<Rightarrow> vec \<times> dropout_cache" where
  "dropout_forward_mask a dropout_mask input_actions =
     (let affine_out = affine (W1 a) input_actions;
          relu_out = leaky_relu (leaky_coeff a) affine_out;
          dropout_out = apply_mask relu_out dropout_mask;
          out = readout dropout_out (W2 a)
      in (out, (input_actions, affine_out, relu_out, dropout_mask, dropout_out)))"

definition dropout_model_forward ::
  "real \<Rightarrow> agent \<Rightarrow> mat \<Rightarrow> rng \<Rightarrow> (vec \<times> dropout_cache) \<times> rng" where
  "dropout_model_forward p a input_actions g =
     (case rd_rand_shape (length input_actions) (length (W1 a)) g of (u, g') \<Rightarrow>
        (dropout_forward_mask a (map (map (\<lambda>x. x > p)) u) input_actions, g'))"

definition dropout_model_backward ::
  "agent \<Rightarrow> vec \<Rightarrow> dropout_cache \<Rightarrow> vec \<Rightarrow> error + mat \<times> vec" where
  "dropout_model_backward a out cache y =
     (case cache of (input_actions, affine_out, relu_out, dropout_mask, dropout_out) \<Rightarrow>
        if noise_var a = 0 then Inl ZeroDivisionError
        else
          let dout = loss_dout (noise_var a) y out;
              dW2 = sum_axis0 (length (W1 a)) (scale_rows dout relu_out);
              ddropout_out = outer dout (W2 a);
              drelu_out = apply_mask ddropout_out dropout_mask;
              mask = relu_mask (leaky_coeff a) affine_out;
              daffine_out = map2 (map2 (*)) mask drelu_out;
              dW1 = dot_T (length (W1 a)) (ncols (W1 a)) daffine_out input_actions
          in Inr (dW1, dW2))"

subsection \<open>Construction\<close>

text \<open>
  \<^verbatim>\<open>rd.randn\<close> and \<^verbatim>\<open>np.zeros\<close> raise \<^verbatim>\<open>ValueError\<close> on a negative dimension.
  \<^verbatim>\<open>TwoLayerNNEpsilonGreedyAnnealing\<close> inherits the constructor of
  \<^verbatim>\<open>TwoLayerNNEpsilonGreedy\<close>; \<^verbatim>\<open>TwoLayerNNDropout\<close> has its own, with \<^verbatim>\<open>drop_prob\<close>
  in the place of \<^verbatim>\<open>epsilon_param\<close>. The argument \<open>v\<close> carries the class and that
  parameter.
\<close>

definition init_agent ::
  "variant \<Rightarrow> int \<Rightarrow> int \<Rightarrow> mat \<Rightarrow> int \<Rightarrow> real \<Rightarrow> real \<Rightarrow> real \<Rightarrow> int \<Rightarrow> int \<Rightarrow> real \<Rightarrow> real
   \<Rightarrow> rng \<Rightarrow> (error + agent) \<times> rng" where
  "init_agent v input_dim hidden_dim actions0 time_horizon prior_var0 noise_var0
     learning_rate num_gradient_steps0 batch_size0 lr_decay0 leaky_coeff0 g =
     (if hidden_dim < 0 \<or> input_dim < 0 then (Inl ValueError, g)
      else
        (case rd_randn_shape (nat hidden_dim) (nat input_dim) g of (r1, g1) \<Rightarrow>
        (case rd_randn_vec (nat hidden_dim) g1 of (r2, g2) \<Rightarrow>
          if time_horizon < 0 then (Inl ValueError, g2)
          else
            (Inr \<lparr> actions = actions0, num_actions = int (length actions0), T = time_horizon,
                   prior_var = prior_var0, noise_var = noise_var0, lr = learning_rate,
                   num_gradient_steps = num_gradient_steps0, batch_size = batch_size0,
                   lr_decay = lr_decay0, leaky_coeff = leaky_coeff0,
                   action_hist = replicate (nat time_horizon) (replicate (nat input_dim) 0),
                   W1 = mat_scale (1 / 100) r1, W2 = vec_scale (1 / 100) r2,
                   variant = v, reward_hist = replicate (nat time_horizon) 0 \<rparr>, g2))))"

subsection \<open>The regularised gradient steps\<close>

text \<open>
  \<^verbatim>\<open>self._model_forward\<close> followed by \<^verbatim>\<open>self._model_backward\<close>, as the class of the
  object resolves them.
\<close>

definition forward_backward ::
  "agent \<Rightarrow> mat \<Rightarrow> vec \<Rightarrow> rng \<Rightarrow> (error + mat \<times> vec) \<times> rng" where
  "forward_backward a action_batch reward_batch g =
     (case variant a of
        Dropout p \<Rightarrow>
          (case dropout_model_forward p a action_batch g of ((out, cache), g') \<Rightarrow>
             (dropout_model_backward a out cache reward_batch, g'))
      | _ \<Rightarrow>
          (case model_forward a action_batch of (out, cache) \<Rightarrow>
             (model_backward a out cache reward_batch, g)))"

text \<open>The three lines under \<^verbatim>\<open># sample minibatch\<close>.\<close>

definition sample_minibatch ::
  "agent \<Rightarrow> int \<Rightarrow> rng \<Rightarrow> (error + nat list \<times> mat \<times> vec) \<times> rng" where
  "sample_minibatch a t g =
     (case rd_randint_size (t + 1) (batch_size a) g of
        (Inl e, g') \<Rightarrow> (Inl e, g')
      | (Inr batch_ind, g') \<Rightarrow>
          (case np_take (action_hist a) batch_ind of
             Inl e \<Rightarrow> (Inl e, g')
           | Inr action_batch \<Rightarrow>
               (case np_take (reward_hist a) batch_ind of
                  Inl e \<Rightarrow> (Inl e, g')
                | Inr reward_batch \<Rightarrow> (Inr (batch_ind, action_batch, reward_batch), g'))))"

definition mat_div :: "mat \<Rightarrow> real \<Rightarrow> mat" where
  "mat_div A n = map (map (\<lambda>x. x / n)) A"

definition vec_div :: "vec \<Rightarrow> real \<Rightarrow> vec" where
  "vec_div v n = map (\<lambda>x. x / n) v"

text \<open>
  One pass of the loop body of \<^verbatim>\<open>_update_model\<close>. With \<^verbatim>\<open>batch_size = 0\<close> the batch is
  empty, the summed gradients are zero and \<^verbatim>\<open>dW1 /= self.batch_size\<close> is \<^verbatim>\<open>0/0\<close>.
\<close>

definition gradient_step :: "agent \<Rightarrow> int \<Rightarrow> rng \<Rightarrow> (error + unit) \<times> agent \<times> rng" where
  "gradient_step a t g =
     (case sample_minibatch a t g of
        (Inl e, g1) \<Rightarrow> (Inl e, a, g1)
      | (Inr (batch_ind, action_batch, reward_batch), g1) \<Rightarrow>
          (case forward_backward a action_batch reward_batch g1 of
             (Inl e, g2) \<Rightarrow> (Inl e, a, g2)
           | (Inr (dW1, dW2), g2) \<Rightarrow>
               if batch_size a = 0 \<and> (concat dW1 \<noteq> [] \<or> dW2 \<noteq> [])
               then (Inl NotANumber, a, g2)
               else if prior_var a * (of_int t + 1) = 0 then (Inl ZeroDivisionError, a, g2)
               else
                 let dW1 = mat_div dW1 (of_int (batch_size a));
                     dW2 = vec_div dW2 (of_int (batch_size a));
                     dW1 = mat_add dW1 (mat_scale (2 / (prior_var a * (of_int t + 1))) (W1 a));
                     dW2 = vec_add dW2 (vec_scale (2 / (prior_var a * (of_int t + 1))) (W2 a));
                     a1 = a\<lparr>W1 := mat_sub (W1 a) (mat_scale (lr a) dW1)\<rparr>;
                     a2 = a1\<lparr>W2 := vec_sub (W2 a1) (vec_scale (lr a1) dW2)\<rparr>
                 in (Inr (), a2, g2)))"

text \<open>\<^verbatim>\<open>for i in range(self.num_gradient_steps)\<close>: an exception leaves the loop.\<close>

fun update_model_loop :: "nat \<Rightarrow> agent \<Rightarrow> int \<Rightarrow> rng \<Rightarrow> (error + unit) \<times> agent \<times> rng" where
  "update_model_loop 0 a t g = (Inr (), a, g)"
| "update_model_loop (Suc n) a t g =
     (case gradient_step a t g of
        (Inl e, a', g') \<Rightarrow> (Inl e, a', g')
      | (Inr u, a', g') \<Rightarrow> update_model_loop n a' t g')"

definition update_model :: "agent \<Rightarrow> int \<Rightarrow> rng \<Rightarrow> (error + unit) \<times> agent \<times> rng" where
  "update_model a t g = update_model_loop (nat (num_gradient_steps a)) a t g"

subsection \<open>Observations and actions\<close>

text \<open>
  A method returns its result or the exception raised, with the agent as the call left
  it (what was assigned before an exception stays assigned) and the random source.
\<close>

definition update_observation ::
  "agent \<Rightarrow> int \<Rightarrow> int \<Rightarrow> real \<Rightarrow> rng \<Rightarrow> (error + unit) \<times> agent \<times> rng" where
  "update_observation a observation action reward g =
     (let t = observation in
      (case np_index (length (actions a)) action of
         Inl e \<Rightarrow> (Inl e, a, g)
       | Inr k \<Rightarrow>
          (case np_index (length (action_hist a)) t of
             Inl e \<Rightarrow> (Inl e, a, g)
           | Inr ti \<Rightarrow>
              (let a1 = a\<lparr>action_hist := (action_hist a)[ti := actions a ! k]\<rparr> in
               (case np_index (length (reward_hist a1)) t of
                  Inl e \<Rightarrow> (Inl e, a1, g)
                | Inr tr \<Rightarrow>
                   (let a2 = a1\<lparr>reward_hist := (reward_hist a1)[tr := reward]\<rparr> in
                    (case update_model a2 t g of
                       (Inl e, a3, g3) \<Rightarrow> (Inl e, a3, g3)
                     | (Inr u, a3, g3) \<Rightarrow>
                         (Inr (), a3\<lparr>lr := lr a3 * lr_decay a3\<rparr>, g3))))))))"

text \<open>
  \<^verbatim>\<open>TwoLayerNNEpsilonGreedy.pick_action\<close>,
  \<^verbatim>\<open>TwoLayerNNEpsilonGreedyAnnealing.pick_action\<close> and \<^verbatim>\<open>TwoLayerNNDropout.pick_action\<close>.
  In the annealing agent \<^verbatim>\<open>epsilon_param / (epsilon_param + t)\<close> is a division of Python
  numbers and raises \<^verbatim>\<open>ZeroDivisionError\<close> when the sum is zero.
\<close>

definition epsilon_greedy_choice ::
  "real \<Rightarrow> agent \<Rightarrow> rng \<Rightarrow> (error + nat) \<times> agent \<times> rng" where
  "epsilon_greedy_choice epsilon a g =
     (case rd_rand g of (u, g1) \<Rightarrow>
        if u < epsilon then
          (case rd_randint (num_actions a) g1 of (action, g2) \<Rightarrow> (action, a, g2))
        else
          (case model_forward a (actions a) of (model_out, _) \<Rightarrow>
             (np_argmax model_out, a, g1)))"

definition pick_action ::
  "real \<Rightarrow> agent \<Rightarrow> int \<Rightarrow> rng \<Rightarrow> (error + nat) \<times> agent \<times> rng" where
  "pick_action epsilon_param a observation g = epsilon_greedy_choice epsilon_param a g"

definition annealing_pick_action ::
  "real \<Rightarrow> agent \<Rightarrow> int \<Rightarrow> rng \<Rightarrow> (error + nat) \<times> agent \<times> rng" where
  "annealing_pick_action epsilon_param a observation g =
     (let t = observation in
      if epsilon_param + of_int t = 0 then (Inl ZeroDivisionError, a, g)
      else
        let epsilon = epsilon_param / (epsilon_param + of_int t)
        in epsilon_greedy_choice epsilon a g)"

definition dropout_pick_action ::
  "real \<Rightarrow> agent \<Rightarrow> int \<Rightarrow> rng \<Rightarrow> (error + nat) \<times> agent \<times> rng" where
  "dropout_pick_action p a observation g =
     (case dropout_model_forward p a (actions a) g of ((model_out, _), g1) \<Rightarrow>
        (np_argmax model_out, a, g1))"

text \<open>\<^verbatim>\<open>agent.pick_action(observation)\<close> as the class of the object resolves it.\<close>

definition agent_pick_action :: "agent \<Rightarrow> int \<Rightarrow> rng \<Rightarrow> (error + nat) \<times> agent \<times> rng" where
  "agent_pick_action a observation g =
     (case variant a of
        EpsilonGreedy epsilon_param \<Rightarrow> pick_action epsilon_param a observation g
      | EpsilonGreedyAnnealing epsilon_param \<Rightarrow> annealing_pick_action epsilon_param a observation g
      | Dropout p \<Rightarrow> dropout_pick_action p a observation g)"

section \<open>The ensemble agent\<close>

text \<open>
  \<^verbatim>\<open>TwoLayerNNEnsembleSampling\<close> keeps two pairs of weight arrays, the priors and the
  trained weights, and updates the trained weights in place. Whether the two pairs are
  the same arrays matters, so the four arrays live in a store and the agent holds their
  addresses: \<^verbatim>\<open>np.copy\<close> allocates a new array, an assignment \<^verbatim>\<open>self.W1[m] -= ...\<close> writes
  into the array at the address of \<^verbatim>\<open>self.W1\<close>. The arrays of rank three and of rank two
  have a cell each at every address. The history arrays are not shared with anything and
  stay fields of the agent.
\<close>

record store =
  arrays3 :: "nat \<Rightarrow> mat list"
  arrays2 :: "nat \<Rightarrow> mat"
  fresh :: nat

definition new_array3 :: "mat list \<Rightarrow> store \<Rightarrow> nat \<times> store" where
  "new_array3 v s = (fresh s, s\<lparr>arrays3 := (arrays3 s)(fresh s := v), fresh := Suc (fresh s)\<rparr>)"

definition new_array2 :: "mat \<Rightarrow> store \<Rightarrow> nat \<times> store" where
  "new_array2 v s = (fresh s, s\<lparr>arrays2 := (arrays2 s)(fresh s := v), fresh := Suc (fresh s)\<rparr>)"

record ensemble = agent_base +
  M :: int
  W1_model_prior :: nat
  W2_model_prior :: nat
  W1_ref :: nat
  W2_ref :: nat
  model_reward_hist :: mat

definition init_ensemble ::
  "int \<Rightarrow> int \<Rightarrow> mat \<Rightarrow> int \<Rightarrow> real \<Rightarrow> real \<Rightarrow> int \<Rightarrow> real \<Rightarrow> int \<Rightarrow> int \<Rightarrow> real \<Rightarrow> real
   \<Rightarrow> store \<Rightarrow> rng \<Rightarrow> (error + ensemble \<times> store) \<times> rng" where
  "init_ensemble input_dim hidden_dim actions0 time_horizon prior_var0 noise_var0 num_models
     learning_rate num_gradient_steps0 batch_size0 lr_decay0 leaky_coeff0 s g =
     (if prior_var0 < 0 then (Inl NotANumber, g)
      else if num_models < 0 \<or> hidden_dim < 0 \<or> input_dim < 0 then (Inl ValueError, g)
      else
        (case rd_randn_shape3 (nat num_models) (nat hidden_dim) (nat input_dim) g of (r1, g1) \<Rightarrow>
        (case new_array3 (map (mat_scale (sqrt prior_var0)) r1) s of (p1, s1) \<Rightarrow>
        (case rd_randn_shape (nat num_models) (nat hidden_dim) g1 of (r2, g2) \<Rightarrow>
        (case new_array2 (mat_scale (sqrt prior_var0) r2) s1 of (p2, s2) \<Rightarrow>
        (case new_array3 (arrays3 s2 p1) s2 of (w1, s3) \<Rightarrow>
        (case new_array2 (arrays2 s3 p2) s3 of (w2, s4) \<Rightarrow>
          if time_horizon < 0 then (Inl ValueError, g2)
          else
            (Inr (\<lparr> actions = actions0, num_actions = int (length actions0), T = time_horizon,
                    prior_var = prior_var0, noise_var = noise_var0, lr = learning_rate,
                    num_gradient_steps = num_gradient_steps0, batch_size = batch_size0,
                    lr_decay = lr_decay0, leaky_coeff = leaky_coeff0,
                    action_hist = replicate (nat time_horizon) (replicate (nat input_dim) 0),
                    M = num_models, W1_model_prior = p1, W2_model_prior = p2,
                    W1_ref = w1, W2_ref = w2,
                    model_reward_hist = replicate (nat num_models) (replicate (nat time_horizon) 0) \<rparr>,
                  s4), g2))))))))"

text \<open>\<^verbatim>\<open>self.W1[m]\<close> and the like: the row \<open>m\<close> of the array at an address.\<close>

definition row_at :: "'a list \<Rightarrow> nat \<Rightarrow> error + 'a" where
  "row_at arr m = (if m < length arr then Inr (arr ! m) else Inl IndexError)"

definition ensemble_model_forward ::
  "ensemble \<Rightarrow> store \<Rightarrow> nat \<Rightarrow> mat \<Rightarrow> error + vec \<times> cache" where
  "ensemble_model_forward a s m input_actions =
     (case row_at (arrays3 s (W1_ref a)) m of
        Inl e \<Rightarrow> Inl e
      | Inr w1 \<Rightarrow>
          (case row_at (arrays2 s (W2_ref a)) m of
             Inl e \<Rightarrow> Inl e
           | Inr w2 \<Rightarrow> Inr (nn_forward w1 w2 (leaky_coeff a) input_actions)))"

definition ensemble_model_backward ::
  "ensemble \<Rightarrow> store \<Rightarrow> nat \<Rightarrow> vec \<Rightarrow> cache \<Rightarrow> vec \<Rightarrow> error + mat \<times> vec" where
  "ensemble_model_backward a s m out cache y =
     (if noise_var a = 0 then Inl ZeroDivisionError
      else
        case row_at (arrays2 s (W2_ref a)) m of
          Inl e \<Rightarrow> Inl e
        | Inr w2 \<Rightarrow>
            (case row_at (arrays3 s (W1_ref a)) m of
               Inl e \<Rightarrow> Inl e
             | Inr w1 \<Rightarrow> nn_backward w1 w2 (leaky_coeff a) (noise_var a) out cache y))"

definition ensemble_sample_minibatch ::
  "ensemble \<Rightarrow> nat \<Rightarrow> int \<Rightarrow> rng \<Rightarrow> (error + nat list \<times> mat \<times> vec) \<times> rng" where
  "ensemble_sample_minibatch a m t g =
     (case rd_randint_size (t + 1) (batch_size a) g of
        (Inl e, g') \<Rightarrow> (Inl e, g')
      | (Inr batch_ind, g') \<Rightarrow>
          (case np_take (action_hist a) batch_ind of
             Inl e \<Rightarrow> (Inl e, g')
           | Inr action_batch \<Rightarrow>
               (case row_at (model_reward_hist a) m of
                  Inl e \<Rightarrow> (Inl e, g')
                | Inr rewards \<Rightarrow>
                    (case np_take rewards batch_ind of
                       Inl e \<Rightarrow> (Inl e, g')
                     | Inr reward_batch \<Rightarrow>
                         (Inr (batch_ind, action_batch, reward_batch), g')))))"

text \<open>One pass of the loop body of \<^verbatim>\<open>_update_model(m, t)\<close>; the writes go to the store.\<close>

definition ensemble_gradient_step ::
  "ensemble \<Rightarrow> store \<Rightarrow> nat \<Rightarrow> int \<Rightarrow> rng \<Rightarrow> (error + unit) \<times> store \<times> rng" where
  "ensemble_gradient_step a s m t g =
     (case ensemble_sample_minibatch a m t g of
        (Inl e, g1) \<Rightarrow> (Inl e, s, g1)
      | (Inr (batch_ind, action_batch, reward_batch), g1) \<Rightarrow>
         (case ensemble_model_forward a s m action_batch of
            Inl e \<Rightarrow> (Inl e, s, g1)
          | Inr (out, cache) \<Rightarrow>
             (case ensemble_model_backward a s m out cache reward_batch of
                Inl e \<Rightarrow> (Inl e, s, g1)
              | Inr (dW1, dW2) \<Rightarrow>
                 (if batch_size a = 0 \<and> (concat dW1 \<noteq> [] \<or> dW2 \<noteq> [])
                  then (Inl NotANumber, s, g1)
                  else if prior_var a * (of_int t + 1) = 0 then (Inl ZeroDivisionError, s, g1)
                  else
                    (let dW1 = mat_div dW1 (of_int (batch_size a));
                         dW2 = vec_div dW2 (of_int (batch_size a))
                     in
                     (case row_at (arrays3 s (W1_model_prior a)) m of
                        Inl e \<Rightarrow> (Inl e, s, g1)
                      | Inr prior1 \<Rightarrow>
                         (let dW1 = mat_add dW1 (mat_scale (2 / (prior_var a * (of_int t + 1)))
                                      (mat_sub (arrays3 s (W1_ref a) ! m) prior1))
                          in
                          (case row_at (arrays2 s (W2_model_prior a)) m of
                             Inl e \<Rightarrow> (Inl e, s, g1)
                           | Inr prior2 \<Rightarrow>
                              (let dW2 = vec_add dW2
                                           (vec_scale (2 / (prior_var a * (of_int t + 1)))
                                              (vec_sub (arrays2 s (W2_ref a) ! m) prior2));
                                   s1 = s\<lparr>arrays3 := (arrays3 s)(W1_ref a :=
                                          (arrays3 s (W1_ref a))[m :=
                                             mat_sub (arrays3 s (W1_ref a) ! m)
                                               (mat_scale (lr a) dW1)])\<rparr>;
                                   s2 = s1\<lparr>arrays2 := (arrays2 s1)(W2_ref a :=
                                          (arrays2 s1 (W2_ref a))[m :=
                                             vec_sub (arrays2 s1 (W2_ref a) ! m)
                                               (vec_scale (lr a) dW2)])\<rparr>
                               in (Inr (), s2, g1))))))))))"

fun ensemble_update_model_loop ::
  "nat \<Rightarrow> ensemble \<Rightarrow> store \<Rightarrow> nat \<Rightarrow> int \<Rightarrow> rng \<Rightarrow> (error + unit) \<times> store \<times> rng" where
  "ensemble_update_model_loop 0 a s m t g = (Inr (), s, g)"
| "ensemble_update_model_loop (Suc n) a s m t g =
     (case ensemble_gradient_step a s m t g of
        (Inl e, s', g') \<Rightarrow> (Inl e, s', g')
      | (Inr u, s', g') \<Rightarrow> ensemble_update_model_loop n a s' m t g')"

definition ensemble_update_model ::
  "ensemble \<Rightarrow> store \<Rightarrow> nat \<Rightarrow> int \<Rightarrow> rng \<Rightarrow> (error + unit) \<times> store \<times> rng" where
  "ensemble_update_model a s m t g =
     ensemble_update_model_loop (nat (num_gradient_steps a)) a s m t g"

text \<open>
  The body of \<^verbatim>\<open>for m in range(self.M)\<close> in \<^verbatim>\<open>update_observation\<close>: perturb the reward,
  store it for member \<open>m\<close>, update member \<open>m\<close>.
\<close>

definition ensemble_member_update ::
  "ensemble \<Rightarrow> store \<Rightarrow> int \<Rightarrow> real \<Rightarrow> nat \<Rightarrow> rng
   \<Rightarrow> (error + unit) \<times> (ensemble \<times> store) \<times> rng" where
  "ensemble_member_update a s t reward m g =
     (if noise_var a < 0 then (Inl NotANumber, (a, s), g)
      else
        (case rd_randn g of (z, g1) \<Rightarrow>
           (let m_noise = sqrt (noise_var a) * z in
            (case row_at (model_reward_hist a) m of
               Inl e \<Rightarrow> (Inl e, (a, s), g1)
             | Inr rewards \<Rightarrow>
                (case np_index (length rewards) t of
                   Inl e \<Rightarrow> (Inl e, (a, s), g1)
                 | Inr ti \<Rightarrow>
                    (let a1 = a\<lparr>model_reward_hist :=
                                (model_reward_hist a)[m := rewards[ti := reward + m_noise]]\<rparr>
                     in
                     (case ensemble_update_model a1 s m t g1 of
                        (r, s', g') \<Rightarrow> (r, (a1, s'), g'))))))))"

fun ensemble_members_loop ::
  "nat list \<Rightarrow> ensemble \<Rightarrow> store \<Rightarrow> int \<Rightarrow> real \<Rightarrow> rng
   \<Rightarrow> (error + unit) \<times> (ensemble \<times> store) \<times> rng" where
  "ensemble_members_loop [] a s t reward g = (Inr (), (a, s), g)"
| "ensemble_members_loop (m # ms) a s t reward g =
     (case ensemble_member_update a s t reward m g of
        (Inl e, (a', s'), g') \<Rightarrow> (Inl e, (a', s'), g')
      | (Inr u, (a', s'), g') \<Rightarrow> ensemble_members_loop ms a' s' t reward g')"

definition ensemble_update_observation ::
  "ensemble \<Rightarrow> store \<Rightarrow> int \<Rightarrow> int \<Rightarrow> real \<Rightarrow> rng
   \<Rightarrow> (error + unit) \<times> (ensemble \<times> store) \<times> rng" where
  "ensemble_update_observation a s observation action reward g =
     (let t = observation in
      (case np_index (length (actions a)) action of
         Inl e \<Rightarrow> (Inl e, (a, s), g)
       | Inr k \<Rightarrow>
          (case np_index (length (action_hist a)) t of
             Inl e \<Rightarrow> (Inl e, (a, s), g)
           | Inr ti \<Rightarrow>
              (let a1 = a\<lparr>action_hist := (action_hist a)[ti := actions a ! k]\<rparr> in
               (case ensemble_members_loop [0..<nat (M a1)] a1 s t reward g of
                  (Inl e, (a2, s2), g2) \<Rightarrow> (Inl e, (a2, s2), g2)
                | (Inr u, (a2, s2), g2) \<Rightarrow>
                    (Inr (), (a2\<lparr>lr := lr a2 * lr_decay a2\<rparr>, s2), g2))))))"

definition ensemble_pick_action ::
  "ensemble \<Rightarrow> store \<Rightarrow> int \<Rightarrow> rng \<Rightarrow> (error + nat) \<times> (ensemble \<times> store) \<times> rng" where
  "ensemble_pick_action a s observation g =
     (case rd_randint (M a) g of
        (Inl e, g1) \<Rightarrow> (Inl e, (a, s), g1)
      | (Inr m, g1) \<Rightarrow>
          (case ensemble_model_forward a s m (actions a) of
             Inl e \<Rightarrow> (Inl e, (a, s), g1)
           | Inr (model_out, _) \<Rightarrow> (np_argmax model_out, (a, s), g1)))"

text \<open>A driver's calls on an ensemble agent, one after the other; an exception of one
  call leaves the state as that call left it.\<close>

datatype call = PickAction int | UpdateObservation int int real

fun run :: "call list \<Rightarrow> ensemble \<times> store \<Rightarrow> rng \<Rightarrow> (ensemble \<times> store) \<times> rng" where
  "run [] st g = (st, g)"
| "run (PickAction t # cs) (a, s) g =
     (case ensemble_pick_action a s t g of (r, st', g') \<Rightarrow> run cs st' g')"
| "run (UpdateObservation t action reward # cs) (a, s) g =
     (case ensemble_update_observation a s t action reward g of (r, st', g') \<Rightarrow> run cs st' g')"

section \<open>Well-formed states\<close>

text \<open>
  What the constructors establish and every call keeps: \<^verbatim>\<open>num_actions\<close> is the length of
  the action set, the history arrays have \<^verbatim>\<open>T\<close> rows, and, for the ensemble, the reward
  history has \<^verbatim>\<open>M\<close> rows of length \<^verbatim>\<open>T\<close>, the four weight arrays have \<^verbatim>\<open>M\<close> members and
  the trained weights are not the arrays of the priors.
\<close>

definition wf_agent :: "agent \<Rightarrow> bool" where
  "wf_agent a \<longleftrightarrow>
     num_actions a = int (length (actions a)) \<and> 0 \<le> T a \<and>
     length (action_hist a) = nat (T a) \<and> length (reward_hist a) = nat (T a)"

definition wf_ensemble :: "ensemble \<Rightarrow> store \<Rightarrow> bool" where
  "wf_ensemble e s \<longleftrightarrow>
     num_actions e = int (length (actions e)) \<and> 0 \<le> T e \<and> 0 \<le> M e \<and>
     length (action_hist e) = nat (T e) \<and>
     map length (model_reward_hist e) = replicate (nat (M e)) (nat (T e)) \<and>
     length (arrays3 s (W1_ref e)) = nat (M e) \<and>
     length (arrays2 s (W2_ref e)) = nat (M e) \<and>
     length (arrays3 s (W1_model_prior e)) = nat (M e) \<and>
     length (arrays2 s (W2_model_prior e)) = nat (M e) \<and>
     W1_ref e \<noteq> W1_model_prior e \<and> W2_ref e \<noteq> W2_model_prior e"

text \<open>
  The shapes of the arrays, which numpy keeps and checks: the rows of the action set, of
  the action history and of \<open>W1\<close> have the width \<^verbatim>\<open>input_dim\<close> (here \<open>d\<close>) and \<open>W2\<close> has
  as many entries as \<open>W1\<close> has rows; in the ensemble every member of \<^verbatim>\<open>W1\<close> and of its
  prior is \<open>h\<close> by \<open>d\<close> and every member of \<^verbatim>\<open>W2\<close> and of its prior has \<open>h\<close> entries. On
  arrays of other shapes numpy raises \<^verbatim>\<open>ValueError\<close> or broadcasts, which the list
  operations above do not follow; statements about whole calls are made for these shapes.
\<close>

definition rows_of_width :: "nat \<Rightarrow> 'a list list \<Rightarrow> bool" where
  "rows_of_width d A \<longleftrightarrow> (\<forall>r \<in> set A. length r = d)"

definition agent_shapes :: "nat \<Rightarrow> agent \<Rightarrow> bool" where
  "agent_shapes d a \<longleftrightarrow>
     rows_of_width d (actions a) \<and> rows_of_width d (action_hist a) \<and>
     rows_of_width d (W1 a) \<and> length (W2 a) = length (W1 a)"

definition member_shape :: "nat \<Rightarrow> nat \<Rightarrow> mat \<Rightarrow> bool" where
  "member_shape d h w \<longleftrightarrow> length w = h \<and> rows_of_width d w"

definition ensemble_shapes :: "nat \<Rightarrow> nat \<Rightarrow> ensemble \<Rightarrow> store \<Rightarrow> bool" where
  "ensemble_shapes d h e s \<longleftrightarrow>
     rows_of_width d (actions e) \<and> rows_of_width d (action_hist e) \<and>
     list_all (member_shape d h) (arrays3 s (W1_ref e)) \<and>
     rows_of_width h (arrays2 s (W2_ref e)) \<and>
     list_all (member_shape d h) (arrays3 s (W1_model_prior e)) \<and>
     rows_of_width h (arrays2 s (W2_model_prior e))"

text \<open>
  What a call on the ensemble may change: \<open>agent_frame\<close> lists the fields of the agent
  that stay (the histories keep their shape), \<open>store_frame\<close> says that the store changes
  at most in the arrays at \<^verbatim>\<open>self.W1\<close> and \<^verbatim>\<open>self.W2\<close>, which keep their length;
  \<open>write_member\<close> is a store in which member \<open>m\<close> of these two arrays was assigned.
\<close>

definition agent_frame :: "ensemble \<Rightarrow> ensemble \<Rightarrow> bool" where
  "agent_frame e e' \<longleftrightarrow>
     actions e' = actions e \<and> num_actions e' = num_actions e \<and> T e' = T e \<and> M e' = M e \<and>
     W1_ref e' = W1_ref e \<and> W2_ref e' = W2_ref e \<and>
     W1_model_prior e' = W1_model_prior e \<and> W2_model_prior e' = W2_model_prior e \<and>
     prior_var e' = prior_var e \<and> noise_var e' = noise_var e \<and>
     batch_size e' = batch_size e \<and> num_gradient_steps e' = num_gradient_steps e \<and>
     lr_decay e' = lr_decay e \<and> leaky_coeff e' = leaky_coeff e \<and>
     length (action_hist e') = length (action_hist e) \<and>
     map length (model_reward_hist e') = map length (model_reward_hist e)"

definition store_frame :: "ensemble \<Rightarrow> store \<Rightarrow> store \<Rightarrow> bool" where
  "store_frame e s s' \<longleftrightarrow>
     (\<forall>x. x \<noteq> W1_ref e \<longrightarrow> arrays3 s' x = arrays3 s x) \<and>
     (\<forall>x. x \<noteq> W2_ref e \<longrightarrow> arrays2 s' x = arrays2 s x) \<and>
     length (arrays3 s' (W1_ref e)) = length (arrays3 s (W1_ref e)) \<and>
     length (arrays2 s' (W2_ref e)) = length (arrays2 s (W2_ref e))"

definition write_member :: "ensemble \<Rightarrow> nat \<Rightarrow> mat \<Rightarrow> vec \<Rightarrow> store \<Rightarrow> store" where
  "write_member a m w1 w2 s =
     s\<lparr>arrays3 := (arrays3 s)(W1_ref a := (arrays3 s (W1_ref a))[m := w1]),
       arrays2 := (arrays2 s)(W2_ref a := (arrays2 s (W2_ref a))[m := w2])\<rparr>"

text \<open>
  The conditions under which a gradient step at time \<open>t\<close> raises nothing: \<open>t\<close> is a row
  of the history, the batch is not empty and the two variances are not zero (for the
  ensemble the noise variance is positive, its square root is taken).
\<close>

definition step_ready :: "agent \<Rightarrow> int \<Rightarrow> bool" where
  "step_ready a t \<longleftrightarrow>
     0 \<le> t \<and> nat t < length (action_hist a) \<and> nat t < length (reward_hist a) \<and>
     0 < batch_size a \<and> noise_var a \<noteq> 0 \<and> prior_var a \<noteq> 0"

definition ensemble_ready :: "ensemble \<Rightarrow> store \<Rightarrow> int \<Rightarrow> bool" where
  "ensemble_ready e s t \<longleftrightarrow>
     wf_ensemble e s \<and> 0 \<le> t \<and> t < T e \<and>
     0 < batch_size e \<and> 0 < noise_var e \<and> prior_var e \<noteq> 0"

text \<open>
  The draws of the random source one pass of the loop over the members takes when it
  completes: one for the perturbation and \<^verbatim>\<open>batch_size\<close> for each gradient step.
\<close>

definition draws_per_member :: "ensemble \<Rightarrow> nat" where
  "draws_per_member e = 1 + nat (num_gradient_steps e) * nat (batch_size e)"

section \<open>The regularisation term of the specification\<close>

text \<open>
  The specification's \<^verbatim>\<open>2 / (prior_var * (t+1)) * (W - W_prior)\<close>, for a matrix and for
  a vector of weights, and the prior of the single-network agents: zero.
\<close>

definition zeros_like :: "mat \<Rightarrow> mat" where
  "zeros_like W = map (map (\<lambda>_. 0)) W"

definition reg_term :: "real \<Rightarrow> int \<Rightarrow> mat \<Rightarrow> mat \<Rightarrow> mat" where
  "reg_term pv t W W_prior = mat_scale (2 / (pv * (of_int t + 1))) (mat_sub W W_prior)"

definition reg_term_vec :: "real \<Rightarrow> int \<Rightarrow> vec \<Rightarrow> vec \<Rightarrow> vec" where
  "reg_term_vec pv t w w_prior = vec_scale (2 / (pv * (of_int t + 1))) (vec_sub w w_prior)"

section \<open>The loss and its gradient\<close>

text \<open>
  The squared-error loss of the specification, scaled so that its derivative in a
  prediction is the \<^verbatim>\<open>dout\<close> of the backward pass, \<^verbatim>\<open>-(2 / noise_var) * (y - out)\<close>: the
  sum over the batch of \<open>(y - out)\<^sup>2 / noise_var\<close>.
\<close>

definition squared_error_loss :: "real \<Rightarrow> vec \<Rightarrow> vec \<Rightarrow> real" where
  "squared_error_loss nv y out = sum_list (map2 (\<lambda>yb ob. (yb - ob)\<^sup>2) y out) / nv"

text \<open>
  The loss of the forward pass as a function of one weight, the others fixed: the entry
  \<open>(j, i)\<close> of \<open>W1\<close> or the entry \<open>j\<close> of \<open>W2\<close>, for the plain forward pass and for the
  forward pass with a fixed dropout mask. The gradient of the loss is the array of the
  derivatives of these functions at the current weights.
\<close>

definition loss_W1 :: "agent \<Rightarrow> mat \<Rightarrow> vec \<Rightarrow> nat \<Rightarrow> nat \<Rightarrow> real \<Rightarrow> real" where
  "loss_W1 a X y j i w =
     squared_error_loss (noise_var a) y
       (fst (model_forward (a\<lparr>W1 := (W1 a)[j := (W1 a ! j)[i := w]]\<rparr>) X))"

definition loss_W2 :: "agent \<Rightarrow> mat \<Rightarrow> vec \<Rightarrow> nat \<Rightarrow> real \<Rightarrow> real" where
  "loss_W2 a X y j v =
     squared_error_loss (noise_var a) y (fst (model_forward (a\<lparr>W2 := (W2 a)[j := v]\<rparr>) X))"

definition dropout_loss_W1 :: "agent \<Rightarrow> bool list list \<Rightarrow> mat \<Rightarrow> vec \<Rightarrow> nat \<Rightarrow> nat \<Rightarrow> real \<Rightarrow> real" where
  "dropout_loss_W1 a dropout_mask X y j i w =
     squared_error_loss (noise_var a) y
       (fst (dropout_forward_mask (a\<lparr>W1 := (W1 a)[j := (W1 a ! j)[i := w]]\<rparr>) dropout_mask X))"

definition dropout_loss_W2 :: "agent \<Rightarrow> bool list list \<Rightarrow> mat \<Rightarrow> vec \<Rightarrow> nat \<Rightarrow> real \<Rightarrow> real" where
  "dropout_loss_W2 a dropout_mask X y j v =
     squared_error_loss (noise_var a) y
       (fst (dropout_forward_mask (a\<lparr>W2 := (W2 a)[j := v]\<rparr>) dropout_mask X))"

definition nn_loss_W1 :: "mat \<Rightarrow> vec \<Rightarrow> real \<Rightarrow> real \<Rightarrow> mat \<Rightarrow> vec \<Rightarrow> nat \<Rightarrow> nat \<Rightarrow> real \<Rightarrow> real" where
  "nn_loss_W1 w1 w2 c nv X y j i w =
     squared_error_loss nv y (fst (nn_forward (w1[j := (w1 ! j)[i := w]]) w2 c X))"

definition nn_loss_W2 :: "mat \<Rightarrow> vec \<Rightarrow> real \<Rightarrow> real \<Rightarrow> mat \<Rightarrow> vec \<Rightarrow> nat \<Rightarrow> real \<Rightarrow> real" where
  "nn_loss_W2 w1 w2 c nv X y j v =
     squared_error_loss nv y (fst (nn_forward w1 (w2[j := v]) c X))"

text \<open>
  The Leaky ReLU of a number, the pre-activation of hidden unit \<open>j\<close> on an input row, and
  the prediction of the network on one input row (without and with a row of the mask).
\<close>

definition lrelu :: "real \<Rightarrow> real \<Rightarrow> real" where
  "lrelu c v = max (c * v) v"

definition pre_act :: "mat \<Rightarrow> nat \<Rightarrow> vec \<Rightarrow> real" where
  "pre_act w1 j x = sum_list (map2 (*) x (w1 ! j))"

definition unit_out :: "mat \<Rightarrow> vec \<Rightarrow> real \<Rightarrow> vec \<Rightarrow> real" where
  "unit_out w1 w2 c x = sum_list (map2 (*) (map (\<lambda>v. max (c * v) v) (map (\<lambda>w. sum_list (map2 (*) x w)) w1)) w2)"

definition dunit_out :: "mat \<Rightarrow> vec \<Rightarrow> real \<Rightarrow> vec \<Rightarrow> bool list \<Rightarrow> real" where
  "dunit_out w1 w2 c x k =
     sum_list (map2 (*) (map2 (\<lambda>v k. v * (if k then 1 else 0))
        (map (\<lambda>v. max (c * v) v) (map (\<lambda>w. sum_list (map2 (*) x w)) w1)) k) w2)"

text \<open>A network of one input and one hidden unit with first-layer weight \<open>w\<close>.\<close>

definition tiny_agent :: "real \<Rightarrow> agent" where
  "tiny_agent w =
     \<lparr> actions = [[1]], num_actions = 1, T = 1, prior_var = 1, noise_var = 1,
       lr = 1 / 10, num_gradient_steps = 1, batch_size = 1, lr_decay = 1,
       leaky_coeff = 1 / 100, action_hist = [[0]],
       W1 = [[w]], W2 = [1], variant = Dropout (1 / 2), reward_hist = [0] \<rparr>"

section \<open>Concrete instances\<close>

text \<open>A random source and small agents on which the properties below are evaluated.\<close>

definition example_rng :: rng where
  "example_rng = (\<lambda>n. real n / 4)"

definition example_agent :: "variant \<Rightarrow> agent" where
  "example_agent v =
     \<lparr> actions = [[1, 0], [0, 1]], num_actions = 2, T = 3, prior_var = 1, noise_var = 1,
       lr = 1 / 10, num_gradient_steps = 1, batch_size = 2, lr_decay = 1 / 2,
       leaky_coeff = 1 / 100, action_hist = [[0, 0], [0, 0], [0, 0]],
       W1 = [[1, 0], [0, 2]], W2 = [1, 1], variant = v, reward_hist = [0, 0, 0] \<rparr>"

text \<open>
  An ensemble of two members as \<^verbatim>\<open>TwoLayerNNEnsembleSampling(2, 2, actions, 3, 1, 1,
  num_models, ...)\<close> builds it in an empty store from \<open>example_rng\<close>, and the agent and
  the store that result for two members.
\<close>

definition empty_store :: store where
  "empty_store = \<lparr> arrays3 = (\<lambda>_. []), arrays2 = (\<lambda>_. []), fresh = 0 \<rparr>"

definition example_init :: "int \<Rightarrow> (error + ensemble \<times> store) \<times> rng" where
  "example_init num_models =
     init_ensemble 2 2 [[1, 0], [0, 1]] 3 1 1 num_models (1 / 10) 1 2 (1 / 2) (1 / 100)
       empty_store example_rng"

definition example_ensemble :: ensemble where
  "example_ensemble =
     \<lparr> actions = [[1, 0], [0, 1]], num_actions = 2, T = 3, prior_var = 1, noise_var = 1,
       lr = 1 / 10, num_gradient_steps = 1, batch_size = 2, lr_decay = 1 / 2,
       leaky_coeff = 1 / 100, action_hist = [[0, 0], [0, 0], [0, 0]],
       M = 2, W1_model_prior = 0, W2_model_prior = 1, W1_ref = 2, W2_ref = 3,
       model_reward_hist = [[0, 0, 0], [0, 0, 0]] \<rparr>"

definition example_prior1 :: "mat list" where
  "example_prior1 = [[[0, 1 / 4], [1 / 2, 3 / 4]], [[1, 5 / 4], [3 / 2, 7 / 4]]]"

definition example_prior2 :: mat where
  "example_prior2 = [[2, 9 / 4], [5 / 2, 11 / 4]]"

definition example_store :: store where
  "example_store =
     \<lparr> arrays3 = (\<lambda>_. [])(0 := example_prior1, 2 := example_prior1),
       arrays2 = (\<lambda>_. [])(1 := example_prior2, 3 := example_prior2),
       fresh = 4 \<rparr>"

section \<open>Action selection\<close>

lemma epsilon_greedy_choice_agent: "fst (snd (epsilon_greedy_choice eps a g)) = a"
  by (simp add: epsilon_greedy_choice_def split: prod.splits)

text \<open>
  C9. \<^verbatim>\<open>pick_action\<close> of every agent class returns the agent as it received it: weights,
  priors (for the ensemble the agent and the store with its four weight arrays), history
  and learning rate are those before the call. Only the random source moves on.
\<close>

theorem pick_action_frame:
  "fst (snd (agent_pick_action a t g)) = a \<and>
   fst (snd (pick_action eps a t g)) = a \<and>
   fst (snd (annealing_pick_action eps a t g)) = a \<and>
   fst (snd (dropout_pick_action p a t g)) = a \<and>
   fst (snd (ensemble_pick_action e s t g)) = (e, s)"
  by (simp add: agent_pick_action_def pick_action_def annealing_pick_action_def
      dropout_pick_action_def ensemble_pick_action_def epsilon_greedy_choice_agent Let_def
      split: prod.splits sum.splits variant.splits)

theorem pick_action_frame_witness:
  "fst (snd (agent_pick_action (example_agent (Dropout (1 / 2))) 0 example_rng))
     = example_agent (Dropout (1 / 2)) \<and>
   fst (snd (pick_action 1 (example_agent (Dropout (1 / 2))) 0 example_rng))
     = example_agent (Dropout (1 / 2))"
  using pick_action_frame [where a = "example_agent (Dropout (1 / 2))" and t = 0
      and g = example_rng and eps = 1]
  by simp



section \<open>Learning-rate decay\<close>

lemma gradient_step_lr:
  "lr (fst (snd (gradient_step a t g))) = lr a \<and>
   lr_decay (fst (snd (gradient_step a t g))) = lr_decay a"
  by (simp add: gradient_step_def Let_def split: prod.splits sum.splits)

lemma update_model_loop_lr:
  "lr (fst (snd (update_model_loop n a t g))) = lr a \<and>
   lr_decay (fst (snd (update_model_loop n a t g))) = lr_decay a"
proof (induction n arbitrary: a g)
  case 0
  then show ?case by simp
next
  case (Suc n)
  show ?case
  proof (cases "gradient_step a t g")
    case (fields r a' g')
    then have "lr a' = lr a" "lr_decay a' = lr_decay a"
      using gradient_step_lr[of a t g] by simp_all
    with fields Suc show ?thesis
      by (cases r) simp_all
  qed
qed

lemma ensemble_members_loop_lr:
  "lr (fst (fst (snd (ensemble_members_loop ms a s t r g)))) = lr a \<and>
   lr_decay (fst (fst (snd (ensemble_members_loop ms a s t r g)))) = lr_decay a"
proof (induction ms arbitrary: a s g)
  case Nil
  then show ?case by simp
next
  case (Cons m ms)
  show ?case
  proof (cases "ensemble_member_update a s t r m g")
    case (fields res st g')
    obtain a' s' where st: "st = (a', s')" by (cases st)
    have "lr a' = lr a" "lr_decay a' = lr_decay a"
      using fields st
      by (auto simp: ensemble_member_update_def Let_def split: if_splits prod.splits sum.splits)
    with fields st Cons show ?thesis
      by (cases res) simp_all
  qed
qed

text \<open>
  C7. A call of \<^verbatim>\<open>update_observation\<close> that returns has multiplied the learning rate by
  \<^verbatim>\<open>lr_decay\<close> once; a call that raises has not changed it. The gradient steps of
  \<^verbatim>\<open>_update_model\<close> and the loop over the ensemble members leave the learning rate as it
  is, so the decay is applied once per call, after them.
\<close>

theorem lr_decays_once:
  "(update_observation a t action reward g = (res, a', g') \<longrightarrow>
      lr a' = (if res = Inr () then lr a * lr_decay a else lr a)) \<and>
   lr (fst (snd (update_model a t g))) = lr a \<and>
   (ensemble_update_observation e s t action reward g = (res2, (e', s'), g2) \<longrightarrow>
      lr e' = (if res2 = Inr () then lr e * lr_decay e else lr e)) \<and>
   lr (fst (fst (snd (ensemble_members_loop ms e s t reward g)))) = lr e"
proof (intro conjI impI)
  assume h: "update_observation a t action reward g = (res, a', g')"
  show "lr a' = (if res = Inr () then lr a * lr_decay a else lr a)"
  proof (cases "np_index (length (actions a)) action")
    case (Inl e1) with h show ?thesis by (auto simp: update_observation_def)
  next
    case k: (Inr k)
    show ?thesis
    proof (cases "np_index (length (action_hist a)) t")
      case (Inl e2) with h k show ?thesis by (auto simp: update_observation_def)
    next
      case ti: (Inr ti)
      let ?a1 = "a\<lparr>action_hist := (action_hist a)[ti := actions a ! k]\<rparr>"
      show ?thesis
      proof (cases "np_index (length (reward_hist ?a1)) t")
        case (Inl e3) with h k ti show ?thesis by (auto simp: update_observation_def Let_def)
      next
        case tr: (Inr tr)
        let ?a2 = "?a1\<lparr>reward_hist := (reward_hist ?a1)[tr := reward]\<rparr>"
        obtain r3 a3 g3 where um: "update_model ?a2 t g = (r3, a3, g3)"
          by (cases "update_model ?a2 t g")
        have "lr a3 = lr a" "lr_decay a3 = lr_decay a"
          using update_model_loop_lr[of "nat (num_gradient_steps ?a2)" ?a2 t g] um
          by (simp_all add: update_model_def)
        with h k ti tr um show ?thesis
          by (cases r3) (auto simp: update_observation_def Let_def)
      qed
    qed
  qed
next
  show "lr (fst (snd (update_model a t g))) = lr a"
    by (simp add: update_model_def update_model_loop_lr)
next
  assume h: "ensemble_update_observation e s t action reward g = (res2, (e', s'), g2)"
  show "lr e' = (if res2 = Inr () then lr e * lr_decay e else lr e)"
  proof (cases "np_index (length (actions e)) action")
    case (Inl e1) with h show ?thesis by (auto simp: ensemble_update_observation_def)
  next
    case k: (Inr k)
    show ?thesis
    proof (cases "np_index (length (action_hist e)) t")
      case (Inl e2) with h k show ?thesis by (auto simp: ensemble_update_observation_def)
    next
      case ti: (Inr ti)
      let ?a1 = "e\<lparr>action_hist := (action_hist e)[ti := actions e ! k]\<rparr>"
      obtain r3 a3 s3 g3 where um:
        "ensemble_members_loop [0..<nat (M ?a1)] ?a1 s t reward g = (r3, (a3, s3), g3)"
        by (metis prod.exhaust)
      have "lr a3 = lr e" "lr_decay a3 = lr_decay e"
        using ensemble_members_loop_lr[of "[0..<nat (M ?a1)]" ?a1 s t reward g] um
        by simp_all
      with h k ti um show ?thesis
        by (cases r3) (auto simp: ensemble_update_observation_def Let_def)
    qed
  qed
next
  show "lr (fst (fst (snd (ensemble_members_loop ms e s t reward g)))) = lr e"
    by (simp add: ensemble_members_loop_lr)
qed

theorem lr_decays_once_witness:
  "fst (update_observation (example_agent (EpsilonGreedy 0)) 0 0 1 example_rng) = Inr () \<and>
   lr (fst (snd (update_observation (example_agent (EpsilonGreedy 0)) 0 0 1 example_rng)))
     = 1 / 20"
proof -
  let ?r = "update_observation (example_agent (EpsilonGreedy 0)) 0 0 1 example_rng"
  have ok: "fst ?r = Inr ()"
    by (simp add: update_observation_def np_index_def example_agent_def update_model_def
      gradient_step_def sample_minibatch_def rd_randint_size_def np_take_def example_rng_def
      forward_backward_def model_forward_def model_backward_def nn_forward_def nn_backward_def
      Let_def upt_conv_Cons split: prod.splits sum.splits)
  have "?r = (fst ?r, fst (snd ?r), snd (snd ?r))" by simp
  with lr_decays_once [of "example_agent (EpsilonGreedy 0)" 0 0 1 example_rng "fst ?r"
      "fst (snd ?r)" "snd (snd ?r)"] ok
  show ?thesis by (simp add: example_agent_def)
qed

section \<open>Indices returned by \<^verbatim>\<open>pick_action\<close>\<close>

lemma argmax_from_bound:
  "best < k \<Longrightarrow> argmax_from best bv k xs < k + length xs"
proof (induction xs arbitrary: best bv k)
  case Nil
  then show ?case by simp
next
  case (Cons x xs)
  have "argmax_from k x (Suc k) xs < Suc k + length xs"
    by (rule Cons.IH) simp
  moreover have "argmax_from best bv (Suc k) xs < Suc k + length xs"
    by (rule Cons.IH) (use Cons.prems in simp)
  ultimately show ?case by simp
qed

lemma np_argmax_in_range:
  "xs \<noteq> [] \<Longrightarrow> \<exists>i. np_argmax xs = Inr i \<and> i < length xs"
  using argmax_from_bound[of 0 1] by (cases xs) (auto simp: np_argmax_def)

lemma length_fst_nn_forward: "length (fst (nn_forward w1 w2 c X)) = length X"
  by (simp add: nn_forward_def affine_def leaky_relu_def readout_def Let_def)

lemma length_fst_dropout_forward:
  "length (fst (fst (dropout_model_forward p a X g))) = length X"
  by (simp add: dropout_model_forward_def rd_rand_shape_def dropout_forward_mask_def affine_def
      leaky_relu_def readout_def apply_mask_def Let_def)

lemma rd_randint_in_range:
  "0 < high \<Longrightarrow> \<exists>i. fst (rd_randint high g) = Inr i \<and> int i < high"
  by (simp add: rd_randint_def)

lemma epsilon_greedy_choice_in_range:
  assumes "num_actions a = int (length (actions a))" "actions a \<noteq> []"
  shows "\<exists>i. fst (epsilon_greedy_choice eps a g) = Inr i \<and> int i < num_actions a"
proof (cases "fst (rd_rand g) < eps")
  case True
  have "0 < num_actions a" using assms by simp
  from rd_randint_in_range[OF this, of "snd (rd_rand g)"] True show ?thesis
    by (auto simp: epsilon_greedy_choice_def split: prod.splits)
next
  case False
  have "fst (model_forward a (actions a)) \<noteq> []"
    using length_fst_nn_forward[of "W1 a" "W2 a" "leaky_coeff a" "actions a"] assms(2)
    by (auto simp: model_forward_def)
  from np_argmax_in_range[OF this] False assms(1) show ?thesis
    using length_fst_nn_forward[of "W1 a" "W2 a" "leaky_coeff a" "actions a"]
    by (auto simp: epsilon_greedy_choice_def model_forward_def split: prod.splits)
qed

lemma dropout_pick_action_in_range:
  assumes "num_actions a = int (length (actions a))" "actions a \<noteq> []"
  shows "\<exists>i. fst (dropout_pick_action p a t g) = Inr i \<and> int i < num_actions a"
proof -
  have "fst (fst (dropout_model_forward p a (actions a) g)) \<noteq> []"
    using length_fst_dropout_forward[of p a "actions a" g] assms(2) by auto
  from np_argmax_in_range[OF this] assms(1) show ?thesis
    using length_fst_dropout_forward[of p a "actions a" g]
    by (auto simp: dropout_pick_action_def split: prod.splits)
qed

section \<open>What the ensemble's calls change\<close>

lemma write_member_id:
  "write_member a m (arrays3 s (W1_ref a) ! m) (arrays2 s (W2_ref a) ! m) s = s"
  by (simp add: write_member_def)

lemma write_member_twice:
  "write_member a m w1' w2' (write_member a m w1 w2 s) = write_member a m w1' w2' s"
  by (simp add: write_member_def)

lemma ensemble_gradient_step_store:
  "\<exists>w1 w2. fst (snd (ensemble_gradient_step a s m t g)) = write_member a m w1 w2 s"
proof (cases "fst (snd (ensemble_gradient_step a s m t g)) = s")
  case True
  then show ?thesis using write_member_id[of a m s] by metis
next
  case False
  then show ?thesis
    by (auto simp: ensemble_gradient_step_def write_member_def Let_def
        split: prod.splits sum.splits if_splits)
qed

lemma agent_frame_refl: "agent_frame e e"
  by (simp add: agent_frame_def)

lemma agent_frame_trans: "agent_frame e e' \<Longrightarrow> agent_frame e' e'' \<Longrightarrow> agent_frame e e''"
  by (simp add: agent_frame_def)

lemma store_frame_refl: "store_frame e s s"
  by (simp add: store_frame_def)

lemma store_frame_trans:
  "store_frame e s s' \<Longrightarrow> agent_frame e e' \<Longrightarrow> store_frame e' s' s'' \<Longrightarrow> store_frame e s s''"
  by (simp add: store_frame_def agent_frame_def)

lemma store_frame_write_member: "store_frame e s (write_member e m w1 w2 s)"
  by (simp add: store_frame_def write_member_def)

lemma ensemble_update_model_loop_store:
  "\<exists>w1 w2. fst (snd (ensemble_update_model_loop n a s m t g)) = write_member a m w1 w2 s"
proof (induction n arbitrary: s g)
  case 0
  show ?case using write_member_id[of a m s] by (metis ensemble_update_model_loop.simps(1) fst_conv snd_conv)
next
  case (Suc n)
  obtain r s1 g1 where st: "ensemble_gradient_step a s m t g = (r, s1, g1)"
    by (cases "ensemble_gradient_step a s m t g")
  obtain w1 w2 where s1: "s1 = write_member a m w1 w2 s"
    using ensemble_gradient_step_store[of a s m t g] st by auto
  show ?case
  proof (cases r)
    case (Inl e)
    with st s1 show ?thesis by auto
  next
    case (Inr u)
    obtain v1 v2 where "fst (snd (ensemble_update_model_loop n a s1 m t g1)) = write_member a m v1 v2 s1"
      using Suc.IH by blast
    with st s1 Inr show ?thesis by (auto simp: write_member_twice)
  qed
qed

lemma write_member_cong:
  "W1_ref a' = W1_ref a \<Longrightarrow> W2_ref a' = W2_ref a \<Longrightarrow>
   write_member a' m w1 w2 s = write_member a m w1 w2 s"
  by (simp add: write_member_def)

lemma agent_frame_reward_update:
  "m < length (model_reward_hist a) \<Longrightarrow>
   agent_frame a (a\<lparr>model_reward_hist :=
      (model_reward_hist a)[m := (model_reward_hist a ! m)[ti := v]]\<rparr>)"
  by (simp add: agent_frame_def map_update list_update_same_conv)

lemma ensemble_member_update_frame:
  assumes "ensemble_member_update a s t reward m g = (r, (a', s'), g')"
  shows "agent_frame a a' \<and> (\<exists>w1 w2. s' = write_member a m w1 w2 s) \<and> lr a' = lr a"
proof -
  have idle: "agent_frame a a \<and> (\<exists>w1 w2. s = write_member a m w1 w2 s) \<and> lr a = lr a"
    using write_member_id[of a m s] by (metis agent_frame_refl)
  show ?thesis
  proof (cases "noise_var a < 0")
    case True
    with assms have "a' = a" "s' = s" by (simp_all add: ensemble_member_update_def)
    with idle show ?thesis by blast
  next
    case nv: False
    show ?thesis
    proof (cases "m < length (model_reward_hist a)")
      case False
      with assms nv have "a' = a" "s' = s"
        by (simp_all add: ensemble_member_update_def rd_randn_def row_at_def Let_def)
      with idle show ?thesis by blast
    next
      case m: True
      show ?thesis
      proof (cases "np_index (length (model_reward_hist a ! m)) t")
        case (Inl e)
        with assms nv m have "a' = a" "s' = s"
          by (simp_all add: ensemble_member_update_def rd_randn_def row_at_def Let_def)
        with idle show ?thesis by blast
      next
        case (Inr ti)
        let ?a1 = "a\<lparr>model_reward_hist := (model_reward_hist a)[m :=
                      (model_reward_hist a ! m)[ti := reward + sqrt (noise_var a) * g 0]]\<rparr>"
        have a': "a' = ?a1" and s': "s' = fst (snd (ensemble_update_model ?a1 s m t (advance 1 g)))"
          using assms nv m Inr
          by (auto simp: ensemble_member_update_def rd_randn_def row_at_def Let_def
              split: prod.splits)
        obtain w1 w2 where "s' = write_member ?a1 m w1 w2 s"
          using ensemble_update_model_loop_store[of "nat (num_gradient_steps ?a1)" ?a1 s m t "advance 1 g"] s'
          by (auto simp: ensemble_update_model_def)
        then have "s' = write_member a m w1 w2 s"
          by (simp add: write_member_def)
        moreover have "agent_frame a a'"
          unfolding a' by (rule agent_frame_reward_update[OF m])
        moreover have "lr a' = lr a" by (simp add: a')
        ultimately show ?thesis by blast
      qed
    qed
  qed
qed

lemma ensemble_member_update_frames:
  assumes "ensemble_member_update a s t reward m g = (r, (a', s'), g')"
  shows "agent_frame a a' \<and> store_frame a s s'"
  using ensemble_member_update_frame[OF assms] store_frame_write_member by blast

lemma ensemble_members_loop_frames:
  "ensemble_members_loop ms a s t reward g = (r, (a', s'), g') \<Longrightarrow>
   agent_frame a a' \<and> store_frame a s s'"
proof (induction ms arbitrary: a s g)
  case Nil
  then show ?case by (simp add: agent_frame_refl store_frame_refl)
next
  case (Cons m ms)
  obtain r1 a1 s1 g1 where st: "ensemble_member_update a s t reward m g = (r1, (a1, s1), g1)"
    by (metis prod.exhaust)
  have f1: "agent_frame a a1" "store_frame a s s1"
    using ensemble_member_update_frames[OF st] by simp_all
  show ?case
  proof (cases r1)
    case (Inl e)
    with st Cons.prems f1 show ?thesis by simp
  next
    case (Inr u)
    with st Cons.prems have "ensemble_members_loop ms a1 s1 t reward g1 = (r, (a', s'), g')"
      by simp
    from Cons.IH[OF this] f1 show ?thesis
      using agent_frame_trans store_frame_trans by blast
  qed
qed

lemma ensemble_update_observation_frames:
  assumes "ensemble_update_observation a s t action reward g = (r, (a', s'), g')"
  shows "agent_frame a a' \<and> store_frame a s s'"
proof (cases "np_index (length (actions a)) action")
  case (Inl e)
  with assms show ?thesis
    by (auto simp: ensemble_update_observation_def agent_frame_refl store_frame_refl)
next
  case k: (Inr k)
  show ?thesis
  proof (cases "np_index (length (action_hist a)) t")
    case (Inl e)
    with assms k show ?thesis
      by (auto simp: ensemble_update_observation_def agent_frame_refl store_frame_refl)
  next
    case ti: (Inr ti)
    let ?a1 = "a\<lparr>action_hist := (action_hist a)[ti := actions a ! k]\<rparr>"
    obtain r2 a2 s2 g2 where lp:
      "ensemble_members_loop [0..<nat (M ?a1)] ?a1 s t reward g = (r2, (a2, s2), g2)"
      by (metis prod.exhaust)
    have f: "agent_frame ?a1 a2" "store_frame ?a1 s s2"
      using ensemble_members_loop_frames[OF lp] by simp_all
    have a1: "agent_frame a ?a1" by (simp add: agent_frame_def)
    have sf: "store_frame a s s2" using f(2) by (simp add: store_frame_def)
    have af: "agent_frame a a2" using a1 f(1) by (rule agent_frame_trans)
    have af': "agent_frame a (a2\<lparr>lr := lr a2 * lr_decay a2\<rparr>)"
      using af by (simp add: agent_frame_def)
    from assms k ti lp sf af af' show ?thesis
      by (cases r2) (auto simp: ensemble_update_observation_def Let_def)
  qed
qed

lemma ensemble_pick_action_state:
  "fst (snd (ensemble_pick_action a s t g)) = (a, s)"
  by (simp add: ensemble_pick_action_def split: prod.splits sum.splits)

lemma run_frames:
  "run cs (e, s) g = ((e', s'), g') \<Longrightarrow> agent_frame e e' \<and> store_frame e s s'"
proof (induction cs arbitrary: e s g)
  case Nil
  then show ?case by (simp add: agent_frame_refl store_frame_refl)
next
  case (Cons c cs)
  show ?case
  proof (cases c)
    case (PickAction t)
    have "snd (ensemble_pick_action e s t g) = ((e, s), snd (snd (ensemble_pick_action e s t g)))"
      using ensemble_pick_action_state[of e s t g] by (metis prod.collapse)
    with Cons.prems PickAction
    have "run cs (e, s) (snd (snd (ensemble_pick_action e s t g))) = ((e', s'), g')"
      by (simp split: prod.splits)
    from Cons.IH[OF this] show ?thesis .
  next
    case (UpdateObservation t action reward)
    obtain r e1 s1 g1 where st:
      "ensemble_update_observation e s t action reward g = (r, (e1, s1), g1)"
      by (metis prod.exhaust)
    with Cons.prems UpdateObservation have "run cs (e1, s1) g1 = ((e', s'), g')" by simp
    from Cons.IH[OF this] ensemble_update_observation_frames[OF st] show ?thesis
      using agent_frame_trans store_frame_trans by blast
  qed
qed

lemma frames_wf:
  "wf_ensemble e s \<Longrightarrow> agent_frame e e' \<Longrightarrow> store_frame e s s' \<Longrightarrow> wf_ensemble e' s'"
  by (simp add: wf_ensemble_def agent_frame_def store_frame_def)

lemma example_init_2:
  "example_init 2 = (Inr (example_ensemble, example_store), advance 12 example_rng)"
  by (simp add: example_init_def init_ensemble_def rd_randn_shape3_def rd_randn_shape_def
      new_array3_def new_array2_def empty_store_def example_rng_def example_ensemble_def
      example_store_def example_prior1_def example_prior2_def mat_scale_def vec_scale_def
      advance_def upt_conv_Cons fun_eq_iff eval_nat_numeral)

lemma init_ensemble_wf:
  assumes "init_ensemble idim hdim acts th pv nv nm lr0 ngs bs dec lc s0 g0 = (Inr (e, s), g1)"
  shows "wf_ensemble e s \<and>
         arrays3 s (W1_ref e) = arrays3 s (W1_model_prior e) \<and>
         arrays2 s (W2_ref e) = arrays2 s (W2_model_prior e) \<and>
         actions e = acts \<and> M e = nm"
  using assms
  by (auto simp: init_ensemble_def rd_randn_shape3_def rd_randn_shape_def new_array3_def
      new_array2_def wf_ensemble_def mat_scale_def split: if_splits)

text \<open>
  C6. The constructor allocates the prior arrays and then, with \<^verbatim>\<open>np.copy\<close>, separate
  arrays of the same content for \<^verbatim>\<open>W1\<close> and \<^verbatim>\<open>W2\<close>. After any sequence of
  \<^verbatim>\<open>pick_action\<close> and \<^verbatim>\<open>update_observation\<close> calls (also calls that raise) the agent still
  refers to the same prior arrays and their content is what the constructor wrote: the
  in-place updates of \<^verbatim>\<open>W1\<close> and \<^verbatim>\<open>W2\<close> never reach the priors.
\<close>

theorem priors_fixed:
  assumes "init_ensemble idim hdim acts th pv nv nm lr0 ngs bs dec lc s0 g0 = (Inr (e, s), g1)"
    and "run cs (e, s) g = ((e', s'), g')"
  shows "W1_ref e \<noteq> W1_model_prior e \<and> W2_ref e \<noteq> W2_model_prior e \<and>
         arrays3 s (W1_ref e) = arrays3 s (W1_model_prior e) \<and>
         arrays2 s (W2_ref e) = arrays2 s (W2_model_prior e) \<and>
         W1_model_prior e' = W1_model_prior e \<and> W2_model_prior e' = W2_model_prior e \<and>
         arrays3 s' (W1_model_prior e') = arrays3 s (W1_model_prior e) \<and>
         arrays2 s' (W2_model_prior e') = arrays2 s (W2_model_prior e)"
proof -
  from init_ensemble_wf[OF assms(1)]
  have wf: "wf_ensemble e s" and c1: "arrays3 s (W1_ref e) = arrays3 s (W1_model_prior e)"
    and c2: "arrays2 s (W2_ref e) = arrays2 s (W2_model_prior e)" by simp_all
  from run_frames[OF assms(2)] have af: "agent_frame e e'" and sf: "store_frame e s s'"
    by simp_all
  from wf have d: "W1_ref e \<noteq> W1_model_prior e" "W2_ref e \<noteq> W2_model_prior e"
    by (simp_all add: wf_ensemble_def)
  from af have r: "W1_model_prior e' = W1_model_prior e" "W2_model_prior e' = W2_model_prior e"
    by (simp_all add: agent_frame_def)
  from sf d have "arrays3 s' (W1_model_prior e) = arrays3 s (W1_model_prior e)"
    "arrays2 s' (W2_model_prior e) = arrays2 s (W2_model_prior e)"
    by (simp_all add: store_frame_def)
  with d c1 c2 r show ?thesis by simp
qed

lemmas eval_ensemble = ensemble_update_observation_def np_index_def
  ensemble_member_update_def ensemble_update_model_def ensemble_gradient_step_def
  ensemble_sample_minibatch_def rd_randint_size_def rd_randn_def np_take_def row_at_def
  ensemble_model_forward_def ensemble_model_backward_def nn_forward_def nn_backward_def
  affine_def leaky_relu_def readout_def loss_dout_def scale_rows_def outer_def relu_mask_def
  sum_axis0_def dot_T_def ncols_def mat_div_def vec_div_def mat_add_def mat_sub_def
  mat_scale_def vec_add_def vec_sub_def vec_scale_def
  example_ensemble_def example_store_def example_prior1_def example_prior2_def
  example_rng_def advance_def Let_def upt_conv_Cons eval_nat_numeral

theorem priors_fixed_witness:
  "example_init 2 = (Inr (example_ensemble, example_store), advance 12 example_rng) \<and>
   arrays3 (snd (fst (run [UpdateObservation 0 0 1, PickAction 1]
      (example_ensemble, example_store) (advance 12 example_rng)))) 0 = example_prior1 \<and>
   arrays3 (snd (fst (run [UpdateObservation 0 0 1, PickAction 1]
      (example_ensemble, example_store) (advance 12 example_rng)))) 2 \<noteq> example_prior1"
proof -
  define r where "r = run [UpdateObservation 0 0 1, PickAction 1]
      (example_ensemble, example_store) (advance 12 example_rng)"
  have i: "init_ensemble 2 2 [[1, 0], [0, 1]] 3 1 1 2 (1 / 10) 1 2 (1 / 2) (1 / 100)
             empty_store example_rng
           = (Inr (example_ensemble, example_store), advance 12 example_rng)"
    using example_init_2 by (simp add: example_init_def)
  have c: "run [UpdateObservation 0 0 1, PickAction 1] (example_ensemble, example_store)
             (advance 12 example_rng) = ((fst (fst r), snd (fst r)), snd r)"
    by (simp add: r_def)
  note pf = priors_fixed [OF i c]
  have "arrays3 (snd (fst r)) (W1_model_prior (fst (fst r)))
          = arrays3 example_store (W1_model_prior example_ensemble)"
    and "W1_model_prior (fst (fst r)) = W1_model_prior example_ensemble"
    using pf by blast+
  then have p: "arrays3 (snd (fst r)) 0 = example_prior1"
    by (simp add: example_ensemble_def example_store_def)
  have "snd (fst r) = snd (fst (snd (ensemble_update_observation example_ensemble
          example_store 0 0 1 (advance 12 example_rng))))"
  proof -
    obtain res e1 s1 g1 where u: "ensemble_update_observation example_ensemble
          example_store 0 0 1 (advance 12 example_rng) = (res, (e1, s1), g1)"
      by (metis prod.exhaust)
    obtain res2 st2 g2 where pk: "ensemble_pick_action e1 s1 1 g1 = (res2, st2, g2)"
      by (metis prod.exhaust)
    have "st2 = (e1, s1)" using ensemble_pick_action_state[of e1 s1 1 g1] pk by simp
    with u pk show ?thesis by (simp add: r_def)
  qed
  moreover have "arrays3 (snd (fst (snd (ensemble_update_observation example_ensemble
          example_store 0 0 1 (advance 12 example_rng))))) 2 \<noteq> example_prior1"
    by (simp add: eval_ensemble)
  ultimately have "arrays3 (snd (fst r)) 2 \<noteq> example_prior1" by simp
  with p example_init_2 show ?thesis unfolding r_def by blast
qed

section \<open>Updates that complete\<close>

lemma rd_randint_size_ok:
  assumes "0 \<le> t" "0 \<le> bs"
  shows "rd_randint_size (t + 1) bs g
         = (Inr (map (\<lambda>k. nat (\<lfloor>g k\<rfloor> mod (t + 1))) [0..<nat bs]), advance (nat bs) g)"
  using assms by (simp add: rd_randint_size_def)

lemma rd_randint_size_bound:
  assumes "rd_randint_size (t + 1) bs g = (Inr batch_ind, g')"
  shows "0 \<le> t \<and> length batch_ind = nat bs \<and> (\<forall>k \<in> set batch_ind. int k \<le> t)"
proof -
  from assms have pos: "0 < t + 1" and
    bi: "batch_ind = map (\<lambda>k. nat (\<lfloor>g k\<rfloor> mod (t + 1))) [0..<nat bs]"
    by (auto simp: rd_randint_size_def split: if_splits)
  have "\<lfloor>g k\<rfloor> mod (t + 1) < t + 1" for k
    using pos by (rule pos_mod_bound)
  moreover have "0 \<le> \<lfloor>g k\<rfloor> mod (t + 1)" for k
    using pos by (rule pos_mod_sign)
  ultimately have "int (nat (\<lfloor>g k\<rfloor> mod (t + 1))) \<le> t" for k
    by (simp add: nat_less_iff)
  with pos bi show ?thesis by auto
qed

lemma np_take_ok:
  "\<forall>k \<in> set ind. k < length arr \<Longrightarrow> np_take arr ind = Inr (map (\<lambda>k. arr ! k) ind)"
  by (simp add: np_take_def)

lemma sample_minibatch_ok:
  assumes "0 \<le> t" "nat t < length (action_hist a)" "nat t < length (reward_hist a)"
    "0 \<le> batch_size a"
  shows "\<exists>batch_ind. sample_minibatch a t g =
           (Inr (batch_ind, map (\<lambda>k. action_hist a ! k) batch_ind,
                 map (\<lambda>k. reward_hist a ! k) batch_ind), advance (nat (batch_size a)) g)"
proof -
  let ?bi = "map (\<lambda>k. nat (\<lfloor>g k\<rfloor> mod (t + 1))) [0..<nat (batch_size a)]"
  have r: "rd_randint_size (t + 1) (batch_size a) g = (Inr ?bi, advance (nat (batch_size a)) g)"
    using assms by (simp add: rd_randint_size_ok)
  from rd_randint_size_bound[OF r] have b: "\<forall>k \<in> set ?bi. int k \<le> t" by blast
  have "\<forall>k \<in> set ?bi. k < length (action_hist a)" "\<forall>k \<in> set ?bi. k < length (reward_hist a)"
    using b assms(1-3) by (auto simp: nat_less_iff)
  then have "np_take (action_hist a) ?bi = Inr (map (\<lambda>k. action_hist a ! k) ?bi)"
    "np_take (reward_hist a) ?bi = Inr (map (\<lambda>k. reward_hist a ! k) ?bi)"
    by (simp_all only: np_take_ok)
  with r show ?thesis by (simp add: sample_minibatch_def)
qed

lemma forward_backward_ok:
  assumes "noise_var a \<noteq> 0"
  shows "\<exists>dW1 dW2 g'. forward_backward a X y g = (Inr (dW1, dW2), g')"
  using assms
  by (auto simp: forward_backward_def model_backward_def nn_backward_def dropout_model_backward_def
      dropout_model_forward_def dropout_forward_mask_def model_forward_def nn_forward_def Let_def
      split: variant.splits prod.splits)

lemma gradient_step_ok:
  assumes "step_ready a t"
  shows "\<exists>a' g'. gradient_step a t g = (Inr (), a', g') \<and> step_ready a' t"
proof -
  from assms have c: "0 \<le> t" "nat t < length (action_hist a)" "nat t < length (reward_hist a)"
    "0 < batch_size a" "noise_var a \<noteq> 0" "prior_var a \<noteq> 0"
    by (simp_all add: step_ready_def)
  obtain bi where s: "sample_minibatch a t g =
           (Inr (bi, map (\<lambda>k. action_hist a ! k) bi, map (\<lambda>k. reward_hist a ! k) bi),
            advance (nat (batch_size a)) g)"
    using sample_minibatch_ok[OF c(1-3), of g] c(4) by auto
  obtain dW1 dW2 g' where f: "forward_backward a (map (\<lambda>k. action_hist a ! k) bi)
      (map (\<lambda>k. reward_hist a ! k) bi) (advance (nat (batch_size a)) g) = (Inr (dW1, dW2), g')"
    using forward_backward_ok[OF c(5)] by blast
  have nz: "prior_var a * (of_int t + 1) \<noteq> 0"
    using c(1,6) by (simp add: add_nonneg_eq_0_iff)
  show ?thesis
    using s f nz c assms
    by (simp add: gradient_step_def Let_def step_ready_def)
qed

lemma update_model_loop_ok:
  "step_ready a t \<Longrightarrow> \<exists>a' g'. update_model_loop n a t g = (Inr (), a', g') \<and> step_ready a' t"
proof (induction n arbitrary: a g)
  case 0
  then show ?case by simp
next
  case (Suc n)
  obtain a1 g1 where st: "gradient_step a t g = (Inr (), a1, g1)" "step_ready a1 t"
    using gradient_step_ok[OF Suc.prems] by blast
  from Suc.IH[OF st(2), of g1] st(1) show ?case by simp
qed

lemma np_index_ok: "0 \<le> i \<Longrightarrow> i < int n \<Longrightarrow> np_index n i = Inr (nat i)"
  by (simp add: np_index_def)

lemma update_observation_ok:
  assumes "wf_agent a" "0 \<le> t" "t < T a" "0 \<le> action" "action < num_actions a"
    "0 < batch_size a" "noise_var a \<noteq> 0" "prior_var a \<noteq> 0"
  shows "fst (update_observation a t action reward g) = Inr ()"
proof -
  from assms(1) have wf: "num_actions a = int (length (actions a))"
    "length (action_hist a) = nat (T a)" "length (reward_hist a) = nat (T a)"
    by (simp_all add: wf_agent_def)
  have i1: "np_index (length (actions a)) action = Inr (nat action)"
    using assms(4,5) wf(1) by (simp add: np_index_ok)
  have i2: "np_index (length (action_hist a)) t = Inr (nat t)"
    using assms(2,3) wf(2) by (simp add: np_index_ok)
  have i3: "np_index (length (reward_hist a)) t = Inr (nat t)"
    using assms(2,3) wf(3) by (simp add: np_index_ok)
  let ?a2 = "a\<lparr>action_hist := (action_hist a)[nat t := actions a ! nat action],
               reward_hist := (reward_hist a)[nat t := reward]\<rparr>"
  have "step_ready ?a2 t"
    using assms wf by (simp add: step_ready_def)
  from update_model_loop_ok[OF this, of "nat (num_gradient_steps ?a2)" g]
  obtain a3 g3 where "update_model ?a2 t g = (Inr (), a3, g3)"
    by (auto simp: update_model_def)
  with i1 i2 i3 show ?thesis
    by (simp add: update_observation_def Let_def)
qed

lemma length_write_member:
  "length (arrays3 (write_member a m w1 w2 s) x) = length (arrays3 s x) \<and>
   length (arrays2 (write_member a m w1 w2 s) x) = length (arrays2 s x)"
  by (simp add: write_member_def)

lemma wf_reward_row:
  assumes "wf_ensemble e s" "m < nat (M e)"
  shows "m < length (model_reward_hist e) \<and> length (model_reward_hist e ! m) = nat (T e)"
proof -
  from assms(1) have ml: "map length (model_reward_hist e) = replicate (nat (M e)) (nat (T e))"
    by (simp add: wf_ensemble_def)
  then have len: "length (model_reward_hist e) = nat (M e)"
    by (metis length_map length_replicate)
  with assms(2) have "map length (model_reward_hist e) ! m = nat (T e)"
    using ml by simp
  with len assms(2) show ?thesis by simp
qed

lemma ensemble_sample_minibatch_ok:
  assumes "0 \<le> t" "nat t < length (action_hist a)" "m < length (model_reward_hist a)"
    "nat t < length (model_reward_hist a ! m)" "0 \<le> batch_size a"
  shows "\<exists>batch_ind. ensemble_sample_minibatch a m t g =
           (Inr (batch_ind, map (\<lambda>k. action_hist a ! k) batch_ind,
                 map (\<lambda>k. model_reward_hist a ! m ! k) batch_ind),
            advance (nat (batch_size a)) g)"
proof -
  let ?bi = "map (\<lambda>k. nat (\<lfloor>g k\<rfloor> mod (t + 1))) [0..<nat (batch_size a)]"
  have r: "rd_randint_size (t + 1) (batch_size a) g = (Inr ?bi, advance (nat (batch_size a)) g)"
    using assms by (simp add: rd_randint_size_ok)
  from rd_randint_size_bound[OF r] have b: "\<forall>k \<in> set ?bi. int k \<le> t" by blast
  have "\<forall>k \<in> set ?bi. k < length (action_hist a)"
    "\<forall>k \<in> set ?bi. k < length (model_reward_hist a ! m)"
    using b assms(1,2,4) by (auto simp: nat_less_iff)
  then have "np_take (action_hist a) ?bi = Inr (map (\<lambda>k. action_hist a ! k) ?bi)"
    "np_take (model_reward_hist a ! m) ?bi = Inr (map (\<lambda>k. model_reward_hist a ! m ! k) ?bi)"
    by (simp_all only: np_take_ok)
  with r assms(3) show ?thesis by (simp add: ensemble_sample_minibatch_def row_at_def)
qed

lemma ensemble_gradient_step_ok:
  assumes "ensemble_ready e s t" "m < nat (M e)"
  shows "\<exists>s' g'. ensemble_gradient_step e s m t g = (Inr (), s', g') \<and> ensemble_ready e s' t"
proof -
  from assms(1) have wf: "wf_ensemble e s" and c: "0 \<le> t" "t < T e" "0 < batch_size e"
    "0 < noise_var e" "prior_var e \<noteq> 0"
    by (simp_all add: ensemble_ready_def)
  from wf_reward_row[OF wf assms(2)] have row: "m < length (model_reward_hist e)"
    "length (model_reward_hist e ! m) = nat (T e)" by simp_all
  from wf assms(2) have len: "m < length (arrays3 s (W1_ref e))" "m < length (arrays2 s (W2_ref e))"
    "m < length (arrays3 s (W1_model_prior e))" "m < length (arrays2 s (W2_model_prior e))"
    "length (action_hist e) = nat (T e)"
    by (simp_all add: wf_ensemble_def)
  obtain bi where sm: "ensemble_sample_minibatch e m t g =
           (Inr (bi, map (\<lambda>k. action_hist e ! k) bi, map (\<lambda>k. model_reward_hist e ! m ! k) bi),
            advance (nat (batch_size e)) g)"
    using ensemble_sample_minibatch_ok[of t e m g] c row len(5) by (auto simp: nat_less_iff)
  have nz: "prior_var e * (of_int t + 1) \<noteq> 0"
    using c(1,5) by (simp add: add_nonneg_eq_0_iff)
  have "fst (ensemble_gradient_step e s m t g) = Inr ()"
    using sm nz c len
    by (simp add: ensemble_gradient_step_def ensemble_model_forward_def
        ensemble_model_backward_def nn_backward_def nn_forward_def row_at_def Let_def)
  moreover obtain w1 w2 where "fst (snd (ensemble_gradient_step e s m t g)) = write_member e m w1 w2 s"
    using ensemble_gradient_step_store by blast
  moreover have "ensemble_ready e (write_member e m w1 w2 s) t"
    using assms(1) frames_wf[OF wf agent_frame_refl store_frame_write_member]
    by (simp add: ensemble_ready_def)
  ultimately show ?thesis
    by (metis prod.collapse)
qed

lemma ensemble_update_model_loop_ok:
  "ensemble_ready e s t \<Longrightarrow> m < nat (M e) \<Longrightarrow>
   \<exists>s' g'. ensemble_update_model_loop n e s m t g = (Inr (), s', g') \<and> ensemble_ready e s' t"
proof (induction n arbitrary: s g)
  case 0
  then show ?case by simp
next
  case (Suc n)
  obtain s1 g1 where st: "ensemble_gradient_step e s m t g = (Inr (), s1, g1)"
    "ensemble_ready e s1 t"
    using ensemble_gradient_step_ok[OF Suc.prems] by blast
  from Suc.IH[OF st(2) Suc.prems(2), of g1] st(1) show ?case by simp
qed

lemma ensemble_ready_frame:
  "ensemble_ready e s t \<Longrightarrow> agent_frame e e' \<Longrightarrow> store_frame e s s' \<Longrightarrow> ensemble_ready e' s' t"
  using frames_wf[of e s e' s'] by (simp add: ensemble_ready_def agent_frame_def)

lemma ensemble_member_update_ok:
  assumes "ensemble_ready e s t" "m < nat (M e)"
  shows "\<exists>e' s' g'. ensemble_member_update e s t reward m g = (Inr (), (e', s'), g') \<and>
           ensemble_ready e' s' t \<and> M e' = M e"
proof -
  from assms(1) have wf: "wf_ensemble e s" and c: "0 \<le> t" "t < T e" "0 < noise_var e"
    by (simp_all add: ensemble_ready_def)
  from wf_reward_row[OF wf assms(2)] have row: "m < length (model_reward_hist e)"
    "length (model_reward_hist e ! m) = nat (T e)" by simp_all
  have ix: "np_index (length (model_reward_hist e ! m)) t = Inr (nat t)"
    using c row by (simp add: np_index_ok)
  let ?e1 = "e\<lparr>model_reward_hist := (model_reward_hist e)[m :=
                (model_reward_hist e ! m)[nat t := reward + sqrt (noise_var e) * g 0]]\<rparr>"
  have af: "agent_frame e ?e1" by (rule agent_frame_reward_update[OF row(1)])
  have r1: "ensemble_ready ?e1 s t"
    using ensemble_ready_frame[OF assms(1) af] by (simp add: store_frame_def)
  have m1: "m < nat (M ?e1)" using assms(2) by simp
  obtain s' g' where um: "ensemble_update_model ?e1 s m t (advance 1 g) = (Inr (), s', g')"
    "ensemble_ready ?e1 s' t"
    using ensemble_update_model_loop_ok[OF r1 m1, of "nat (num_gradient_steps ?e1)" "advance 1 g"]
    unfolding ensemble_update_model_def by blast
  have "ensemble_member_update e s t reward m g = (Inr (), (?e1, s'), g')"
    using c row ix um(1)
    by (simp add: ensemble_member_update_def rd_randn_def row_at_def Let_def)
  with um(2) show ?thesis by auto
qed

lemma ensemble_members_loop_ok:
  "ensemble_ready e s t \<Longrightarrow> \<forall>m \<in> set ms. m < nat (M e) \<Longrightarrow>
   \<exists>e' s' g'. ensemble_members_loop ms e s t reward g = (Inr (), (e', s'), g')"
proof (induction ms arbitrary: e s g)
  case Nil
  then show ?case by simp
next
  case (Cons m ms)
  from Cons.prems(2) have m: "m < nat (M e)" by simp
  obtain e1 s1 g1 where st: "ensemble_member_update e s t reward m g = (Inr (), (e1, s1), g1)"
    "ensemble_ready e1 s1 t" "M e1 = M e"
    using ensemble_member_update_ok[OF Cons.prems(1) m] by blast
  have "\<forall>m \<in> set ms. m < nat (M e1)" using Cons.prems(2) st(3) by simp
  from Cons.IH[OF st(2) this, of g1] st(1) show ?case by simp
qed

lemma ensemble_update_observation_ok:
  assumes "wf_ensemble e s" "0 \<le> t" "t < T e" "0 \<le> action" "action < num_actions e"
    "0 < batch_size e" "0 < noise_var e" "prior_var e \<noteq> 0"
  shows "fst (ensemble_update_observation e s t action reward g) = Inr ()"
proof -
  from assms(1) have wf: "num_actions e = int (length (actions e))"
    "length (action_hist e) = nat (T e)"
    by (simp_all add: wf_ensemble_def)
  have i1: "np_index (length (actions e)) action = Inr (nat action)"
    using assms(4,5) wf(1) by (simp add: np_index_ok)
  have i2: "np_index (length (action_hist e)) t = Inr (nat t)"
    using assms(2,3) wf(2) by (simp add: np_index_ok)
  let ?e1 = "e\<lparr>action_hist := (action_hist e)[nat t := actions e ! nat action]\<rparr>"
  have "agent_frame e ?e1" by (simp add: agent_frame_def)
  moreover have "ensemble_ready e s t" using assms by (simp add: ensemble_ready_def)
  ultimately have "ensemble_ready ?e1 s t"
    using ensemble_ready_frame store_frame_refl by blast
  from ensemble_members_loop_ok[OF this, of "[0..<nat (M ?e1)]" reward g]
  obtain e2 s2 g2 where
    "ensemble_members_loop [0..<nat (M ?e1)] ?e1 s t reward g = (Inr (), (e2, s2), g2)"
    by auto
  with i1 i2 show ?thesis
    by (simp add: ensemble_update_observation_def Let_def)
qed

lemma init_agent_wf:
  assumes "init_agent v idim hdim acts th pv nv lr0 ngs bs dec lc g0 = (Inr a, g1)"
  shows "wf_agent a \<and> actions a = acts \<and> variant a = v"
  using assms
  by (auto simp: init_agent_def wf_agent_def rd_randn_shape_def rd_randn_vec_def split: if_splits)

lemma example_agent_wf: "wf_agent (example_agent v)"
  by (simp add: wf_agent_def example_agent_def)

lemma example_ensemble_wf: "wf_ensemble example_ensemble example_store"
  by (simp add: wf_ensemble_def example_ensemble_def example_store_def example_prior1_def
      example_prior2_def eval_nat_numeral)

lemma ensemble_pick_action_in_range:
  assumes "wf_ensemble e s" "0 < M e" "actions e \<noteq> []"
  shows "\<exists>i. fst (ensemble_pick_action e s t g) = Inr i \<and> int i < num_actions e"
proof -
  obtain m where m: "rd_randint (M e) g = (Inr m, advance 1 g)" "int m < M e"
    using assms(2) by (simp add: rd_randint_def)
  from assms(1) m(2) have len: "m < length (arrays3 s (W1_ref e))" "m < length (arrays2 s (W2_ref e))"
    and na: "num_actions e = int (length (actions e))"
    by (simp_all add: wf_ensemble_def)
  let ?out = "fst (nn_forward (arrays3 s (W1_ref e) ! m) (arrays2 s (W2_ref e) ! m) (leaky_coeff e) (actions e))"
  have l: "length ?out = length (actions e)" by (rule length_fst_nn_forward)
  then have "?out \<noteq> []" using assms(3) by auto
  from np_argmax_in_range[OF this] obtain i where "np_argmax ?out = Inr i" "i < length ?out"
    by blast
  with m(1) len l na show ?thesis
    by (auto simp: ensemble_pick_action_def ensemble_model_forward_def row_at_def
        split: prod.splits)
qed

section \<open>Minibatches\<close>

lemma sample_minibatch_result:
  assumes "sample_minibatch a t g = (Inr (batch_ind, action_batch, reward_batch), g')"
  shows "0 \<le> t \<and> (\<forall>k \<in> set batch_ind. int k \<le> t) \<and> length batch_ind = nat (batch_size a) \<and>
         action_batch = map (\<lambda>k. action_hist a ! k) batch_ind \<and>
         reward_batch = map (\<lambda>k. reward_hist a ! k) batch_ind"
proof -
  obtain r g1 where rd: "rd_randint_size (t + 1) (batch_size a) g = (r, g1)"
    by (cases "rd_randint_size (t + 1) (batch_size a) g")
  with assms obtain bi where r: "r = Inr bi"
    by (cases r) (auto simp: sample_minibatch_def)
  from assms rd r have bi: "bi = batch_ind"
    and tk: "np_take (action_hist a) bi = Inr action_batch"
      "np_take (reward_hist a) bi = Inr reward_batch"
    by (auto simp: sample_minibatch_def split: sum.splits)
  from tk have "action_batch = map (\<lambda>k. action_hist a ! k) bi"
    "reward_batch = map (\<lambda>k. reward_hist a ! k) bi"
    by (auto simp: np_take_def split: if_splits)
  with rd_randint_size_bound[of t "batch_size a" g bi g1] rd r bi show ?thesis by simp
qed

lemma ensemble_sample_minibatch_result:
  assumes "ensemble_sample_minibatch e m t g = (Inr (batch_ind, action_batch, reward_batch), g')"
  shows "0 \<le> t \<and> (\<forall>k \<in> set batch_ind. int k \<le> t) \<and> length batch_ind = nat (batch_size e) \<and>
         action_batch = map (\<lambda>k. action_hist e ! k) batch_ind \<and>
         reward_batch = map (\<lambda>k. model_reward_hist e ! m ! k) batch_ind \<and>
         m < length (model_reward_hist e)"
proof -
  obtain r g1 where rd: "rd_randint_size (t + 1) (batch_size e) g = (r, g1)"
    by (cases "rd_randint_size (t + 1) (batch_size e) g")
  with assms obtain bi where r: "r = Inr bi"
    by (cases r) (auto simp: ensemble_sample_minibatch_def)
  from assms rd r have bi: "bi = batch_ind"
    and tk: "np_take (action_hist e) bi = Inr action_batch"
    and m: "m < length (model_reward_hist e)"
    and tr: "np_take (model_reward_hist e ! m) bi = Inr reward_batch"
    by (auto simp: ensemble_sample_minibatch_def row_at_def split: sum.splits if_splits)
  from tk tr have "action_batch = map (\<lambda>k. action_hist e ! k) bi"
    "reward_batch = map (\<lambda>k. model_reward_hist e ! m ! k) bi"
    by (auto simp: np_take_def split: if_splits)
  with rd_randint_size_bound[of t "batch_size e" g bi g1] rd r bi m show ?thesis by simp
qed

text \<open>
  C4. The indices \<^verbatim>\<open>_update_model\<close> draws at time \<open>t\<close>, in any gradient step, for the
  single-network agents and for any member of the ensemble, lie in \<open>{0, ..., t}\<close>, and
  the batch consists of the rows of the history at these indices.
\<close>

theorem minibatch_indices_observed:
  "(sample_minibatch a t g = (Inr (batch_ind, action_batch, reward_batch), g') \<longrightarrow>
      (\<forall>k \<in> set batch_ind. 0 \<le> int k \<and> int k \<le> t) \<and>
      action_batch = map (\<lambda>k. action_hist a ! k) batch_ind \<and>
      reward_batch = map (\<lambda>k. reward_hist a ! k) batch_ind) \<and>
   (ensemble_sample_minibatch e m t g = (Inr (batch_ind2, action_batch2, reward_batch2), g2) \<longrightarrow>
      (\<forall>k \<in> set batch_ind2. 0 \<le> int k \<and> int k \<le> t) \<and>
      action_batch2 = map (\<lambda>k. action_hist e ! k) batch_ind2 \<and>
      reward_batch2 = map (\<lambda>k. model_reward_hist e ! m ! k) batch_ind2)"
  using sample_minibatch_result[of a t g batch_ind action_batch reward_batch g']
    ensemble_sample_minibatch_result[of e m t g batch_ind2 action_batch2 reward_batch2 g2]
  by simp

theorem minibatch_indices_observed_witness:
  "sample_minibatch ((example_agent (EpsilonGreedy 0))\<lparr>batch_size := 5\<rparr>) 1 example_rng
     = (Inr ([0, 0, 0, 0, 1], [[0, 0], [0, 0], [0, 0], [0, 0], [0, 0]], [0, 0, 0, 0, 0]),
        advance 5 example_rng) \<and>
   list_all (\<lambda>k. int k \<le> 1) [0, 0, 0, 0, 1 :: nat]"
proof -
  have s: "sample_minibatch ((example_agent (EpsilonGreedy 0))\<lparr>batch_size := 5\<rparr>) 1 example_rng
     = (Inr ([0, 0, 0, 0, 1], [[0, 0], [0, 0], [0, 0], [0, 0], [0, 0]], [0, 0, 0, 0, 0]),
        advance 5 example_rng)"
    by (simp add: sample_minibatch_def rd_randint_size_def np_take_def example_agent_def
        example_rng_def upt_conv_Cons eval_nat_numeral)
  from minibatch_indices_observed [of "(example_agent (EpsilonGreedy 0))\<lparr>batch_size := 5\<rparr>"
      1 example_rng "[0, 0, 0, 0, 1]" "[[0, 0], [0, 0], [0, 0], [0, 0], [0, 0]]"
      "[0, 0, 0, 0, 0]" "advance 5 example_rng"] s
  show ?thesis by simp
qed

section \<open>The regularised step\<close>

lemma vec_sub_zeros: "vec_sub w (map (\<lambda>_. 0) w) = w"
  by (induction w) (simp_all add: vec_sub_def)

lemma mat_sub_zeros: "mat_sub W (zeros_like W) = W"
  by (induction W) (simp_all add: mat_sub_def zeros_like_def vec_sub_zeros)

lemma gradient_step_weights:
  assumes "gradient_step a t g = (Inr (), a', g')"
  shows "\<exists>batch_ind action_batch reward_batch g1 dW1 dW2.
           sample_minibatch a t g = (Inr (batch_ind, action_batch, reward_batch), g1) \<and>
           forward_backward a action_batch reward_batch g1 = (Inr (dW1, dW2), g') \<and>
           W1 a' = mat_sub (W1 a) (mat_scale (lr a)
                     (mat_add (mat_div dW1 (of_int (batch_size a)))
                        (reg_term (prior_var a) t (W1 a) (zeros_like (W1 a))))) \<and>
           W2 a' = vec_sub (W2 a) (vec_scale (lr a)
                     (vec_add (vec_div dW2 (of_int (batch_size a)))
                        (reg_term_vec (prior_var a) t (W2 a) (map (\<lambda>_. 0) (W2 a)))))"
proof -
  obtain r g1 where sm: "sample_minibatch a t g = (r, g1)"
    by (cases "sample_minibatch a t g")
  with assms obtain bi ab rb where r: "r = Inr (bi, ab, rb)"
    by (cases r) (auto simp: gradient_step_def)
  obtain r2 g2 where fb: "forward_backward a ab rb g1 = (r2, g2)"
    by (cases "forward_backward a ab rb g1")
  with assms sm r obtain dW1 dW2 where r2: "r2 = Inr (dW1, dW2)"
    by (cases r2) (auto simp: gradient_step_def)
  from assms sm r fb r2 have
    "g' = g2"
    "W1 a' = mat_sub (W1 a) (mat_scale (lr a)
       (mat_add (mat_div dW1 (of_int (batch_size a)))
          (mat_scale (2 / (prior_var a * (of_int t + 1))) (W1 a))))"
    "W2 a' = vec_sub (W2 a) (vec_scale (lr a)
       (vec_add (vec_div dW2 (of_int (batch_size a)))
          (vec_scale (2 / (prior_var a * (of_int t + 1))) (W2 a))))"
    by (auto simp: gradient_step_def Let_def split: if_splits)
  with sm r fb r2 show ?thesis
    by (simp add: reg_term_def reg_term_vec_def mat_sub_zeros vec_sub_zeros)
qed

lemma ensemble_gradient_step_weights:
  assumes "ensemble_gradient_step e s m t g = (Inr (), s', g')"
  shows "\<exists>batch_ind action_batch reward_batch out cache dW1 dW2.
           ensemble_sample_minibatch e m t g = (Inr (batch_ind, action_batch, reward_batch), g') \<and>
           ensemble_model_forward e s m action_batch = Inr (out, cache) \<and>
           ensemble_model_backward e s m out cache reward_batch = Inr (dW1, dW2) \<and>
           arrays3 s' (W1_ref e) ! m =
             mat_sub (arrays3 s (W1_ref e) ! m) (mat_scale (lr e)
               (mat_add (mat_div dW1 (of_int (batch_size e)))
                  (reg_term (prior_var e) t (arrays3 s (W1_ref e) ! m)
                     (arrays3 s (W1_model_prior e) ! m)))) \<and>
           arrays2 s' (W2_ref e) ! m =
             vec_sub (arrays2 s (W2_ref e) ! m) (vec_scale (lr e)
               (vec_add (vec_div dW2 (of_int (batch_size e)))
                  (reg_term_vec (prior_var e) t (arrays2 s (W2_ref e) ! m)
                     (arrays2 s (W2_model_prior e) ! m))))"
proof -
  obtain r g1 where sm: "ensemble_sample_minibatch e m t g = (r, g1)"
    by (cases "ensemble_sample_minibatch e m t g")
  with assms obtain bi ab rb where r: "r = Inr (bi, ab, rb)"
    by (cases r) (auto simp: ensemble_gradient_step_def)
  obtain r2 where fw: "ensemble_model_forward e s m ab = r2" by simp
  with assms sm r obtain out cache where r2: "r2 = Inr (out, cache)"
    by (cases r2) (auto simp: ensemble_gradient_step_def)
  from fw r2 have len: "m < length (arrays3 s (W1_ref e))" "m < length (arrays2 s (W2_ref e))"
    by (auto simp: ensemble_model_forward_def row_at_def split: if_splits)
  obtain r3 where bw: "ensemble_model_backward e s m out cache rb = r3" by simp
  with assms sm r fw r2 obtain dW1 dW2 where r3: "r3 = Inr (dW1, dW2)"
    by (cases r3) (auto simp: ensemble_gradient_step_def)
  from assms sm r fw r2 bw r3 len have
    "g' = g1"
    "arrays3 s' (W1_ref e) ! m =
       mat_sub (arrays3 s (W1_ref e) ! m) (mat_scale (lr e)
         (mat_add (mat_div dW1 (of_int (batch_size e)))
            (mat_scale (2 / (prior_var e * (of_int t + 1)))
               (mat_sub (arrays3 s (W1_ref e) ! m) (arrays3 s (W1_model_prior e) ! m)))))"
    "arrays2 s' (W2_ref e) ! m =
       vec_sub (arrays2 s (W2_ref e) ! m) (vec_scale (lr e)
         (vec_add (vec_div dW2 (of_int (batch_size e)))
            (vec_scale (2 / (prior_var e * (of_int t + 1)))
               (vec_sub (arrays2 s (W2_ref e) ! m) (arrays2 s (W2_model_prior e) ! m)))))"
    by (auto simp: ensemble_gradient_step_def row_at_def Let_def split: if_splits)
  with sm r fw r2 bw r3 show ?thesis
    unfolding reg_term_def reg_term_vec_def by blast
qed

text \<open>
  C2. A gradient step that completes at time \<open>t\<close> subtracts from each weight array
  \<^verbatim>\<open>lr\<close> times the gradient of the backward pass on the minibatch, divided by
  \<^verbatim>\<open>batch_size\<close>, plus the term \<^verbatim>\<open>2 / (prior_var * (t+1)) * (W - W_prior)\<close> of the
  specification, where \<open>W_prior\<close> is zero for the single-network agents (epsilon-greedy
  and dropout) and the member's row of the prior arrays for the ensemble.
\<close>

theorem regularisation_added:
  "(gradient_step a t g = (Inr (), a', g') \<longrightarrow>
      (\<exists>batch_ind action_batch reward_batch g1 dW1 dW2.
           sample_minibatch a t g = (Inr (batch_ind, action_batch, reward_batch), g1) \<and>
           forward_backward a action_batch reward_batch g1 = (Inr (dW1, dW2), g') \<and>
           W1 a' = mat_sub (W1 a) (mat_scale (lr a)
                     (mat_add (mat_div dW1 (of_int (batch_size a)))
                        (reg_term (prior_var a) t (W1 a) (zeros_like (W1 a))))) \<and>
           W2 a' = vec_sub (W2 a) (vec_scale (lr a)
                     (vec_add (vec_div dW2 (of_int (batch_size a)))
                        (reg_term_vec (prior_var a) t (W2 a) (map (\<lambda>_. 0) (W2 a))))))) \<and>
   (ensemble_gradient_step e s m t g = (Inr (), s', g2) \<longrightarrow>
      (\<exists>batch_ind action_batch reward_batch out cache dW1 dW2.
           ensemble_sample_minibatch e m t g = (Inr (batch_ind, action_batch, reward_batch), g2) \<and>
           ensemble_model_forward e s m action_batch = Inr (out, cache) \<and>
           ensemble_model_backward e s m out cache reward_batch = Inr (dW1, dW2) \<and>
           arrays3 s' (W1_ref e) ! m =
             mat_sub (arrays3 s (W1_ref e) ! m) (mat_scale (lr e)
               (mat_add (mat_div dW1 (of_int (batch_size e)))
                  (reg_term (prior_var e) t (arrays3 s (W1_ref e) ! m)
                     (arrays3 s (W1_model_prior e) ! m)))) \<and>
           arrays2 s' (W2_ref e) ! m =
             vec_sub (arrays2 s (W2_ref e) ! m) (vec_scale (lr e)
               (vec_add (vec_div dW2 (of_int (batch_size e)))
                  (reg_term_vec (prior_var e) t (arrays2 s (W2_ref e) ! m)
                     (arrays2 s (W2_model_prior e) ! m))))))"
  using gradient_step_weights[of a t g a' g'] ensemble_gradient_step_weights[of e s m t g s' g2]
  by blast

lemmas eval_agent = update_observation_def np_index_def update_model_def
  gradient_step_def sample_minibatch_def rd_randint_size_def np_take_def
  forward_backward_def model_forward_def model_backward_def nn_forward_def nn_backward_def
  affine_def leaky_relu_def readout_def loss_dout_def scale_rows_def outer_def relu_mask_def
  sum_axis0_def dot_T_def ncols_def mat_div_def vec_div_def mat_add_def mat_sub_def
  mat_scale_def vec_add_def vec_sub_def vec_scale_def
  example_agent_def example_rng_def advance_def Let_def upt_conv_Cons eval_nat_numeral

theorem regularisation_added_witness:
  "fst (gradient_step (example_agent (EpsilonGreedy 0)) 0 example_rng) = Inr () \<and>
   W1 (fst (snd (gradient_step (example_agent (EpsilonGreedy 0)) 0 example_rng)))
     = [[4 / 5, 0], [0, 8 / 5]] \<and>
   fst (ensemble_gradient_step example_ensemble example_store 0 0 example_rng) = Inr () \<and>
   arrays3 (fst (snd (ensemble_gradient_step example_ensemble example_store 0 0 example_rng))) 2 ! 0
     = [[0, 1 / 4], [1 / 2, 3 / 4]]"
proof -
  let ?a = "example_agent (EpsilonGreedy 0)"
  let ?x = "gradient_step ?a 0 example_rng"
  let ?y = "ensemble_gradient_step example_ensemble example_store 0 0 example_rng"
  have ok: "fst ?x = Inr ()" by (simp add: eval_agent)
  then have x: "?x = (Inr (), fst (snd ?x), snd (snd ?x))"
    by (metis prod.collapse)
  have ok2: "fst ?y = Inr ()" by (simp add: eval_ensemble)
  then have y: "?y = (Inr (), fst (snd ?y), snd (snd ?y))"
    by (metis prod.collapse)
  note r = regularisation_added [of ?a 0 example_rng "fst (snd ?x)" "snd (snd ?x)"
      example_ensemble example_store 0 "fst (snd ?y)" "snd (snd ?y)"]
  have sm: "sample_minibatch ?a 0 example_rng
      = (Inr ([0, 0], [[0, 0], [0, 0]], [0, 0]), advance 2 example_rng)"
    by (simp add: sample_minibatch_def rd_randint_size_def np_take_def example_agent_def
        example_rng_def upt_conv_Cons eval_nat_numeral)
  have fb: "forward_backward ?a [[0, 0], [0, 0]] [0, 0] g1 = (Inr ([[0, 0], [0, 0]], [0, 0]), g1)"
    for g1
    by (simp add: eval_agent)
  from r x obtain dW1 g1 bi ab rb dW2 where
    o1: "sample_minibatch ?a 0 example_rng = (Inr (bi, ab, rb), g1)" and
    o2: "forward_backward ?a ab rb g1 = (Inr (dW1, dW2), snd (snd ?x))" and
    o3: "W1 (fst (snd ?x)) = mat_sub (W1 ?a) (mat_scale (lr ?a)
         (mat_add (mat_div dW1 (of_int (batch_size ?a)))
            (reg_term (prior_var ?a) 0 (W1 ?a) (zeros_like (W1 ?a)))))"
    by blast
  from o1 sm have "ab = [[0, 0], [0, 0]]" "rb = [0, 0]" by auto
  with o2 fb[of g1] have "dW1 = [[0, 0], [0, 0]]" by auto
  with o3 have "W1 (fst (snd ?x)) = mat_sub (W1 ?a) (mat_scale (lr ?a)
         (mat_add (mat_div [[0, 0], [0, 0]] (of_int (batch_size ?a)))
            (reg_term (prior_var ?a) 0 (W1 ?a) (zeros_like (W1 ?a)))))"
    by simp
  then have w: "W1 (fst (snd ?x)) = [[4 / 5, 0], [0, 8 / 5]]"
    by (simp add: example_agent_def reg_term_def zeros_like_def mat_sub_def mat_scale_def
        mat_add_def mat_div_def vec_sub_def vec_scale_def vec_add_def)
  have "arrays3 (fst (snd ?y)) 2 ! 0 = [[0, 1 / 4], [1 / 2, 3 / 4]]"
    by (simp add: eval_ensemble)
  with ok ok2 w show ?thesis by simp
qed

section \<open>The updates of the ensemble members\<close>

lemma advance_advance: "advance a (advance b g) = advance (a + b) g"
  by (simp add: advance_def fun_eq_iff ac_simps)

lemma advance_0: "advance 0 g = g"
  by (simp add: advance_def)

lemma ensemble_sample_minibatch_rng:
  assumes "ensemble_sample_minibatch e m t g = (Inr x, g')"
  shows "g' = advance (nat (batch_size e)) g"
  using assms
  by (auto simp: ensemble_sample_minibatch_def rd_randint_size_def
      split: if_splits sum.splits)

lemma ensemble_gradient_step_rng:
  assumes "ensemble_gradient_step e s m t g = (Inr (), s', g')"
  shows "g' = advance (nat (batch_size e)) g"
  using ensemble_gradient_step_weights[OF assms] ensemble_sample_minibatch_rng by blast

lemma ensemble_update_model_loop_rng:
  "ensemble_update_model_loop n e s m t g = (Inr (), s', g') \<Longrightarrow>
   g' = advance (n * nat (batch_size e)) g"
proof (induction n arbitrary: s g)
  case 0
  then show ?case by (simp add: advance_0)
next
  case (Suc n)
  obtain r s1 g1 where st: "ensemble_gradient_step e s m t g = (r, s1, g1)"
    by (cases "ensemble_gradient_step e s m t g")
  with Suc.prems have r: "r = Inr ()" by (cases r) auto
  from st r have g1: "g1 = advance (nat (batch_size e)) g"
    using ensemble_gradient_step_rng by blast
  from Suc.prems st r have "ensemble_update_model_loop n e s1 m t g1 = (Inr (), s', g')" by simp
  from Suc.IH[OF this] g1 show ?case by (simp add: advance_advance ac_simps)
qed

lemma ensemble_member_update_result:
  assumes "ensemble_member_update e s t reward m g = (Inr (), (e', s'), g')"
  shows "\<exists>ti. m < length (model_reward_hist e) \<and>
           np_index (length (model_reward_hist e ! m)) t = Inr ti \<and>
           e' = e\<lparr>model_reward_hist := (model_reward_hist e)[m :=
                  (model_reward_hist e ! m)[ti := reward + sqrt (noise_var e) * fst (rd_randn g)]]\<rparr> \<and>
           ensemble_update_model e' s m t (snd (rd_randn g)) = (Inr (), s', g') \<and>
           g' = advance (draws_per_member e) g"
proof -
  from assms have nv: "\<not> noise_var e < 0"
    by (auto simp: ensemble_member_update_def split: if_splits)
  from assms nv have m: "m < length (model_reward_hist e)"
    by (auto simp: ensemble_member_update_def rd_randn_def row_at_def Let_def split: if_splits)
  from assms nv m obtain ti where ti: "np_index (length (model_reward_hist e ! m)) t = Inr ti"
    by (cases "np_index (length (model_reward_hist e ! m)) t")
      (auto simp: ensemble_member_update_def rd_randn_def row_at_def Let_def)
  let ?e1 = "e\<lparr>model_reward_hist := (model_reward_hist e)[m :=
                  (model_reward_hist e ! m)[ti := reward + sqrt (noise_var e) * fst (rd_randn g)]]\<rparr>"
  from assms nv m ti have e': "e' = ?e1"
    and um: "ensemble_update_model ?e1 s m t (snd (rd_randn g)) = (Inr (), s', g')"
    by (auto simp: ensemble_member_update_def rd_randn_def row_at_def Let_def split: prod.splits)
  from um have "g' = advance (nat (num_gradient_steps e) * nat (batch_size e)) (advance 1 g)"
    using ensemble_update_model_loop_rng[of "nat (num_gradient_steps ?e1)" ?e1 s m t "advance 1 g" s' g']
    by (simp add: ensemble_update_model_def rd_randn_def)
  then have "g' = advance (draws_per_member e) g"
    by (simp add: advance_advance draws_per_member_def ac_simps)
  with m ti e' um show ?thesis by blast
qed

lemma write_member_others:
  "m' \<noteq> m \<Longrightarrow>
   arrays3 (write_member e m w1 w2 s) (W1_ref e) ! m' = arrays3 s (W1_ref e) ! m' \<and>
   arrays2 (write_member e m w1 w2 s) (W2_ref e) ! m' = arrays2 s (W2_ref e) ! m'"
  by (simp add: write_member_def)

lemma ensemble_members_loop_rows:
  "ensemble_members_loop ms e s t reward g = (Inr (), (e', s'), g') \<Longrightarrow> distinct ms \<Longrightarrow>
   (\<forall>m'. m' \<notin> set ms \<longrightarrow> model_reward_hist e' ! m' = model_reward_hist e ! m') \<and>
   noise_var e' = noise_var e \<and> draws_per_member e' = draws_per_member e \<and>
   (\<forall>k<length ms. \<exists>ti.
       np_index (length (model_reward_hist e ! (ms ! k))) t = Inr ti \<and>
       model_reward_hist e' ! (ms ! k) =
         (model_reward_hist e ! (ms ! k))[ti := reward + sqrt (noise_var e) * g (k * draws_per_member e)])"
proof (induction ms arbitrary: e s g)
  case Nil
  then show ?case by simp
next
  case (Cons m ms)
  obtain r e1 s1 g1 where st: "ensemble_member_update e s t reward m g = (r, (e1, s1), g1)"
    by (metis prod.exhaust)
  with Cons.prems(1) have r: "r = Inr ()" by (cases r) auto
  from ensemble_member_update_result[OF st[unfolded r]] obtain ti where
    m: "m < length (model_reward_hist e)" and
    ti: "np_index (length (model_reward_hist e ! m)) t = Inr ti" and
    e1: "e1 = e\<lparr>model_reward_hist := (model_reward_hist e)[m :=
                  (model_reward_hist e ! m)[ti := reward + sqrt (noise_var e) * fst (rd_randn g)]]\<rparr>" and
    g1: "g1 = advance (draws_per_member e) g"
    by blast
  from e1 have same: "noise_var e1 = noise_var e" "draws_per_member e1 = draws_per_member e"
    by (simp_all add: draws_per_member_def)
  from e1 have other: "model_reward_hist e1 ! m' = model_reward_hist e ! m'" if "m' \<noteq> m" for m'
    using that by simp
  from e1 m have row: "model_reward_hist e1 ! m =
      (model_reward_hist e ! m)[ti := reward + sqrt (noise_var e) * g 0]"
    by (simp add: rd_randn_def)
  from Cons.prems st r have lp: "ensemble_members_loop ms e1 s1 t reward g1 = (Inr (), (e', s'), g')"
    by simp
  from Cons.prems(2) have d: "distinct ms" "m \<notin> set ms" by simp_all
  note ih = Cons.IH[OF lp d(1)]
  have A: "\<forall>m'. m' \<notin> set (m # ms) \<longrightarrow> model_reward_hist e' ! m' = model_reward_hist e ! m'"
    using ih other by auto
  have B: "noise_var e' = noise_var e" "draws_per_member e' = draws_per_member e"
    using ih same by simp_all
  have C: "\<exists>ti. np_index (length (model_reward_hist e ! ((m # ms) ! k))) t = Inr ti \<and>
       model_reward_hist e' ! ((m # ms) ! k) =
         (model_reward_hist e ! ((m # ms) ! k))[ti := reward + sqrt (noise_var e) * g (k * draws_per_member e)]"
    if k: "k < length (m # ms)" for k
  proof (cases k)
    case 0
    have "model_reward_hist e' ! m = model_reward_hist e1 ! m" using ih d(2) by blast
    with row ti 0 show ?thesis by auto
  next
    case (Suc k')
    with k have k': "k' < length ms" by simp
    then have ne: "ms ! k' \<noteq> m" using d(2) by (metis nth_mem)
    from ih k' obtain ti' where
      "np_index (length (model_reward_hist e1 ! (ms ! k'))) t = Inr ti'"
      "model_reward_hist e' ! (ms ! k') =
         (model_reward_hist e1 ! (ms ! k'))[ti' := reward + sqrt (noise_var e1) * g1 (k' * draws_per_member e1)]"
      by blast
    moreover have "g1 (k' * draws_per_member e1) = g (Suc k' * draws_per_member e)"
      using g1 same by (simp add: advance_def ac_simps)
    ultimately show ?thesis using Suc other[OF ne] same by auto
  qed
  from A B C show ?case by blast
qed

lemma ensemble_update_model_row_only:
  assumes "m < length R" "m < length (model_reward_hist e)" "R ! m = model_reward_hist e ! m"
  shows "ensemble_update_model (e\<lparr>model_reward_hist := R\<rparr>) s m t g = ensemble_update_model e s m t g"
proof -
  let ?e2 = "e\<lparr>model_reward_hist := R\<rparr>"
  have sm: "ensemble_sample_minibatch ?e2 m t g = ensemble_sample_minibatch e m t g" for g
  proof -
    have "row_at (model_reward_hist ?e2) m = row_at (model_reward_hist e) m"
      using assms by (simp add: row_at_def)
    moreover have "action_hist ?e2 = action_hist e" "batch_size ?e2 = batch_size e" by simp_all
    ultimately show ?thesis unfolding ensemble_sample_minibatch_def by (simp only:)
  qed
  have st: "ensemble_gradient_step ?e2 s m t g = ensemble_gradient_step e s m t g" for s g
  proof -
    have "ensemble_model_forward ?e2 s m X = ensemble_model_forward e s m X" for X
      by (simp add: ensemble_model_forward_def split: sum.splits)
    moreover have "ensemble_model_backward ?e2 s m out c y = ensemble_model_backward e s m out c y"
      for out c y
      by (simp add: ensemble_model_backward_def split: sum.splits)
    moreover have "batch_size ?e2 = batch_size e" "prior_var ?e2 = prior_var e"
      "W1_model_prior ?e2 = W1_model_prior e" "W2_model_prior ?e2 = W2_model_prior e"
      "W1_ref ?e2 = W1_ref e" "W2_ref ?e2 = W2_ref e" "lr ?e2 = lr e"
      by simp_all
    ultimately show ?thesis unfolding ensemble_gradient_step_def sm by (simp only:)
  qed
  have "ensemble_update_model_loop n ?e2 s m t g = ensemble_update_model_loop n e s m t g" for n
    by (induction n arbitrary: s g) (simp_all add: st split: prod.splits sum.splits)
  then show ?thesis by (simp add: ensemble_update_model_def)
qed

lemma ensemble_update_observation_rows:
  assumes "ensemble_update_observation e s t action reward g = (Inr (), (e', s'), g')"
  shows "\<forall>m<nat (M e). \<exists>ti.
       np_index (length (model_reward_hist e ! m)) t = Inr ti \<and>
       model_reward_hist e' ! m =
         (model_reward_hist e ! m)[ti := reward + sqrt (noise_var e) * g (m * draws_per_member e)]"
proof -
  from assms obtain k where k: "np_index (length (actions e)) action = Inr k"
    by (cases "np_index (length (actions e)) action") (auto simp: ensemble_update_observation_def)
  from assms k obtain ti where ti: "np_index (length (action_hist e)) t = Inr ti"
    by (cases "np_index (length (action_hist e)) t") (auto simp: ensemble_update_observation_def)
  let ?e1 = "e\<lparr>action_hist := (action_hist e)[ti := actions e ! k]\<rparr>"
  obtain r e2 s2 g2 where lp:
    "ensemble_members_loop [0..<nat (M ?e1)] ?e1 s t reward g = (r, (e2, s2), g2)"
    by (metis prod.exhaust)
  with assms k ti have r: "r = Inr ()" and e': "e' = e2\<lparr>lr := lr e2 * lr_decay e2\<rparr>"
    by (cases r; auto simp: ensemble_update_observation_def Let_def)+
  from ensemble_members_loop_rows[OF lp[unfolded r]] have
    "\<forall>k<length [0..<nat (M ?e1)]. \<exists>ti.
       np_index (length (model_reward_hist ?e1 ! ([0..<nat (M ?e1)] ! k))) t = Inr ti \<and>
       model_reward_hist e2 ! ([0..<nat (M ?e1)] ! k) =
         (model_reward_hist ?e1 ! ([0..<nat (M ?e1)] ! k))[ti := reward + sqrt (noise_var ?e1) * g (k * draws_per_member ?e1)]"
    by simp
  then show ?thesis using e' by (simp add: draws_per_member_def)
qed

lemma ensemble_member_update_others:
  assumes "ensemble_member_update e s t reward m g = (r, (e', s'), g')" "m' \<noteq> m"
  shows "arrays3 s' (W1_ref e) ! m' = arrays3 s (W1_ref e) ! m' \<and>
         arrays2 s' (W2_ref e) ! m' = arrays2 s (W2_ref e) ! m'"
  using ensemble_member_update_frame[OF assms(1)] write_member_others[OF assms(2)] by auto

text \<open>
  C5. In \<^verbatim>\<open>update_observation\<close> of the ensemble agent, the pass of the loop for member
  \<open>m\<close> stores \<^verbatim>\<open>reward + sqrt(noise_var) * rd.randn()\<close> into \<^verbatim>\<open>model_reward_hist[m][t]\<close>
  and then runs \<^verbatim>\<open>_update_model(m, t)\<close> on that state; the weights of the other members
  stay as they are, and the update of member \<open>m\<close> reads the reward history in row \<open>m\<close>
  only (another history with the same row \<open>m\<close> gives the same update). After a call
  that completes, every member \<open>k\<close> below \<^verbatim>\<open>M\<close> has in row \<open>k\<close> at \<open>t\<close> the reward plus
  \<^verbatim>\<open>sqrt(noise_var)\<close> times a draw of its own: the draw at position \<open>k\<close> times the number
  of draws a member takes. That \<^verbatim>\<open>rd.randn\<close> draws are standard normal and independent
  is the contract of numpy's generator; a perturbation is one such draw scaled by
  \<^verbatim>\<open>sqrt(noise_var)\<close>.
\<close>

theorem member_updates:
  "(ensemble_member_update e s t reward m g = (Inr (), (e', s'), g') \<longrightarrow>
      (\<exists>ti. m < length (model_reward_hist e) \<and>
            np_index (length (model_reward_hist e ! m)) t = Inr ti \<and>
            e' = e\<lparr>model_reward_hist := (model_reward_hist e)[m :=
                   (model_reward_hist e ! m)[ti := reward + sqrt (noise_var e) * fst (rd_randn g)]]\<rparr> \<and>
            ensemble_update_model e' s m t (snd (rd_randn g)) = (Inr (), s', g')) \<and>
      (\<forall>m'. m' \<noteq> m \<longrightarrow>
            arrays3 s' (W1_ref e) ! m' = arrays3 s (W1_ref e) ! m' \<and>
            arrays2 s' (W2_ref e) ! m' = arrays2 s (W2_ref e) ! m')) \<and>
   (m < length R \<and> m < length (model_reward_hist e) \<and> R ! m = model_reward_hist e ! m \<longrightarrow>
      ensemble_update_model (e\<lparr>model_reward_hist := R\<rparr>) s m t g = ensemble_update_model e s m t g) \<and>
   (ensemble_update_observation e s t action reward g = (Inr (), (e2, s2), g2) \<longrightarrow>
      (\<forall>k<nat (M e). \<exists>ti.
          np_index (length (model_reward_hist e ! k)) t = Inr ti \<and>
          model_reward_hist e2 ! k =
            (model_reward_hist e ! k)[ti := reward + sqrt (noise_var e) * g (k * draws_per_member e)]))"
proof (intro conjI impI)
  assume h: "ensemble_member_update e s t reward m g = (Inr (), (e', s'), g')"
  from ensemble_member_update_result[OF h]
  show "\<exists>ti. m < length (model_reward_hist e) \<and>
            np_index (length (model_reward_hist e ! m)) t = Inr ti \<and>
            e' = e\<lparr>model_reward_hist := (model_reward_hist e)[m :=
                   (model_reward_hist e ! m)[ti := reward + sqrt (noise_var e) * fst (rd_randn g)]]\<rparr> \<and>
            ensemble_update_model e' s m t (snd (rd_randn g)) = (Inr (), s', g')"
    by blast
  show "\<forall>m'. m' \<noteq> m \<longrightarrow>
            arrays3 s' (W1_ref e) ! m' = arrays3 s (W1_ref e) ! m' \<and>
            arrays2 s' (W2_ref e) ! m' = arrays2 s (W2_ref e) ! m'"
    using ensemble_member_update_others[OF h] by blast
next
  assume "m < length R \<and> m < length (model_reward_hist e) \<and> R ! m = model_reward_hist e ! m"
  then show "ensemble_update_model (e\<lparr>model_reward_hist := R\<rparr>) s m t g = ensemble_update_model e s m t g"
    using ensemble_update_model_row_only by blast
next
  assume "ensemble_update_observation e s t action reward g = (Inr (), (e2, s2), g2)"
  from ensemble_update_observation_rows[OF this]
  show "\<forall>k<nat (M e). \<exists>ti.
          np_index (length (model_reward_hist e ! k)) t = Inr ti \<and>
          model_reward_hist e2 ! k =
            (model_reward_hist e ! k)[ti := reward + sqrt (noise_var e) * g (k * draws_per_member e)]" .
qed

theorem member_updates_witness:
  "fst (ensemble_update_observation example_ensemble example_store 0 0 1
          (advance 12 example_rng)) = Inr () \<and>
   model_reward_hist (fst (fst (snd (ensemble_update_observation example_ensemble
      example_store 0 0 1 (advance 12 example_rng))))) ! 0 = [4, 0, 0] \<and>
   model_reward_hist (fst (fst (snd (ensemble_update_observation example_ensemble
      example_store 0 0 1 (advance 12 example_rng))))) ! 1 = [19 / 4, 0, 0]"
proof -
  define x where "x = ensemble_update_observation example_ensemble example_store 0 0 1
          (advance 12 example_rng)"
  have ok: "fst x = Inr ()"
    unfolding x_def
    by (rule ensemble_update_observation_ok[OF example_ensemble_wf])
      (simp_all add: example_ensemble_def)
  then have x: "ensemble_update_observation example_ensemble example_store 0 0 1
          (advance 12 example_rng) = (Inr (), (fst (fst (snd x)), snd (fst (snd x))), snd (snd x))"
    unfolding x_def by (metis prod.collapse)
  from member_updates [of example_ensemble example_store 0 1 0 "advance 12 example_rng"
      example_ensemble example_store "advance 12 example_rng" "[]" 0
      "fst (fst (snd x))" "snd (fst (snd x))" "snd (snd x)"] x
  have rows: "\<forall>k<nat (M example_ensemble). \<exists>ti.
          np_index (length (model_reward_hist example_ensemble ! k)) 0 = Inr ti \<and>
          model_reward_hist (fst (fst (snd x))) ! k =
            (model_reward_hist example_ensemble ! k)[ti := 1 + sqrt (noise_var example_ensemble)
               * advance 12 example_rng (k * draws_per_member example_ensemble)]"
    by blast
  have "0 < nat (M example_ensemble)" "1 < nat (M example_ensemble)"
    by (simp_all add: example_ensemble_def)
  with rows have
    "\<exists>ti. np_index (length (model_reward_hist example_ensemble ! 0)) 0 = Inr ti \<and>
          model_reward_hist (fst (fst (snd x))) ! 0 =
            (model_reward_hist example_ensemble ! 0)[ti := 1 + sqrt (noise_var example_ensemble)
               * advance 12 example_rng (0 * draws_per_member example_ensemble)]"
    "\<exists>ti. np_index (length (model_reward_hist example_ensemble ! 1)) 0 = Inr ti \<and>
          model_reward_hist (fst (fst (snd x))) ! 1 =
            (model_reward_hist example_ensemble ! 1)[ti := 1 + sqrt (noise_var example_ensemble)
               * advance 12 example_rng (1 * draws_per_member example_ensemble)]"
    by blast+
  then have "model_reward_hist (fst (fst (snd x))) ! 0 = [4, 0, 0]"
    "model_reward_hist (fst (fst (snd x))) ! 1 = [19 / 4, 0, 0]"
    by (auto simp: example_ensemble_def np_index_def draws_per_member_def advance_def
        example_rng_def)
  with ok show ?thesis unfolding x_def by simp
qed

section \<open>The backward pass and the gradient of the loss\<close>

lemma sum_list_map2_update_right:
  "i < length r \<Longrightarrow> i < length x \<Longrightarrow>
   sum_list (map2 (*) x (r[i := w])) = sum_list (map2 (*) x r) + x ! i * (w - r ! i :: real)"
proof (induction x arbitrary: r i)
  case Nil then show ?case by simp
next
  case (Cons a x)
  then show ?case
    by (cases r; cases i) (auto simp: algebra_simps)
qed

lemma sum_list_map2_update_left:
  "i < length r \<Longrightarrow> i < length x \<Longrightarrow>
   sum_list (map2 (*) (r[i := w]) x) = sum_list (map2 (*) r x) + (w - r ! i :: real) * x ! i"
proof (induction x arbitrary: r i)
  case Nil then show ?case by simp
next
  case (Cons a x)
  then show ?case
    by (cases r; cases i) (auto simp: algebra_simps)
qed

lemma leaky_deriv:
  assumes "c \<le> 1" "a \<noteq> 0"
  shows "((\<lambda>v. max (c * v) v) has_field_derivative (if a \<ge> 0 then 1 else c)) (at (a::real))"
proof (cases "a > 0")
  case True
  have "((\<lambda>v::real. v) has_field_derivative 1) (at a)" by simp
  then have "((\<lambda>v. max (c * v) v) has_field_derivative 1) (at a)"
  proof (rule has_field_derivative_transform_within_open[where S="{0<..}"])
    show "open {0::real<..}" by simp
    show "a \<in> {0<..}" using True by simp
    fix x :: real assume "x \<in> {0<..}"
    then have "c * x \<le> x" using assms(1) by (simp add: mult_le_cancel_right1)
    then show "x = max (c * x) x" by simp
  qed
  then show ?thesis using True by simp
next
  case False
  then have neg: "a < 0" using assms(2) by simp
  have "((\<lambda>v::real. c * v) has_field_derivative c) (at a)"
    by (auto intro!: derivative_eq_intros)
  then have "((\<lambda>v. max (c * v) v) has_field_derivative c) (at a)"
  proof (rule has_field_derivative_transform_within_open[where S="{..<0}"])
    show "open {..<0::real}" by simp
    show "a \<in> {..<0}" using neg by simp
    fix x :: real assume "x \<in> {..<0}"
    then have "x \<le> c * x" using assms(1) by (simp add: mult_le_cancel_right1)
    then show "c * x = max (c * x) x" by simp
  qed
  then show ?thesis using neg by simp
qed

lemma sum_list_map2_nth:
  "length xs = n \<Longrightarrow> length ys = n \<Longrightarrow> sum_list (map2 f xs ys) = (\<Sum>b<n. f (xs ! b) (ys ! b))"
  by (simp add: sum_list_sum_nth atLeast0LessThan)

lemma fst_nn_forward: "fst (nn_forward w1 w2 c X) = map (unit_out w1 w2 c) X"
  by (simp add: nn_forward_def affine_def leaky_relu_def readout_def unit_out_def Let_def)

lemma unit_out_update_W1:
  assumes "j < length w1" "i < length (w1 ! j)" "length x = length (w1 ! j)" "length w2 = length w1"
  shows "unit_out (w1[j := (w1 ! j)[i := w]]) w2 c x =
         unit_out w1 w2 c x
         + (lrelu c (sum_list (map2 (*) x (w1 ! j)) + x ! i * (w - w1 ! j ! i))
            - lrelu c (sum_list (map2 (*) x (w1 ! j)))) * w2 ! j"
  using assms
  by (simp add: unit_out_def map_update sum_list_map2_update_left sum_list_map2_update_right lrelu_def)

lemma unit_out_update_W2:
  assumes "j < length w2" "length w2 = length w1"
  shows "unit_out w1 (w2[j := v]) c x =
         unit_out w1 w2 c x
         + lrelu c (sum_list (map2 (*) x (w1 ! j))) * (v - w2 ! j)"
  using assms
  by (simp add: unit_out_def sum_list_map2_update_right lrelu_def)

lemma loss_sum:
  assumes "length y = length X"
  shows "squared_error_loss nv y (map f X) = (\<Sum>b<length X. (y ! b - f (X ! b))\<^sup>2) / nv"
  using assms by (simp add: squared_error_loss_def sum_list_map2_nth[where n="length X"])

lemma snd_nn_forward:
  "snd (nn_forward w1 w2 c X) = (X, affine w1 X, leaky_relu c (affine w1 X))"
  by (simp add: nn_forward_def Let_def)

lemma backward_dW2_entry:
  assumes "nv \<noteq> 0" "length y = length X" "j < length w2" "length w2 = length w1"
  shows "\<exists>dW1 dW2. nn_backward w1 w2 c nv (fst (nn_forward w1 w2 c X)) (snd (nn_forward w1 w2 c X)) y = Inr (dW1, dW2)
     \<and> dW2 ! j = (\<Sum>b<length X. - (2 / nv) * (y ! b - unit_out w1 w2 c (X ! b)) * lrelu c (pre_act w1 j (X ! b)))"
proof -
  have "sum_list (map (\<lambda>r. r ! j) (scale_rows (loss_dout nv y (map (unit_out w1 w2 c) X)) (leaky_relu c (affine w1 X))))
      = (\<Sum>b<length X. - (2 / nv) * (y ! b - unit_out w1 w2 c (X ! b)) * lrelu c (pre_act w1 j (X ! b)))"
    using assms
    by (simp add: sum_list_sum_nth atLeast0LessThan scale_rows_def loss_dout_def leaky_relu_def
        affine_def lrelu_def pre_act_def)
  then show ?thesis
    using assms
    by (simp add: nn_backward_def snd_nn_forward fst_nn_forward sum_axis0_def Let_def)
qed

lemma backward_dW1_entry:
  assumes "nv \<noteq> 0" "length y = length X" "j < length w1" "length w2 = length w1" "i < ncols w1"
  shows "\<exists>dW1 dW2. nn_backward w1 w2 c nv (fst (nn_forward w1 w2 c X)) (snd (nn_forward w1 w2 c X)) y = Inr (dW1, dW2)
     \<and> dW1 ! j ! i = (\<Sum>b<length X. (((if pre_act w1 j (X ! b) \<ge> 0 then 1 else 0) + c * (if pre_act w1 j (X ! b) < 0 then 1 else 0))
           * (- (2 / nv) * (y ! b - unit_out w1 w2 c (X ! b)) * w2 ! j)) * X ! b ! i)"
proof -
  have "sum_list (map2 (\<lambda>r x. r ! j * x ! i)
          (map2 (map2 (*)) (relu_mask c (affine w1 X)) (outer (loss_dout nv y (map (unit_out w1 w2 c) X)) w2)) X)
      = (\<Sum>b<length X. (((if pre_act w1 j (X ! b) \<ge> 0 then 1 else 0) + c * (if pre_act w1 j (X ! b) < 0 then 1 else 0))
           * (- (2 / nv) * (y ! b - unit_out w1 w2 c (X ! b)) * w2 ! j)) * X ! b ! i)"
    using assms
    by (simp add: sum_list_sum_nth atLeast0LessThan relu_mask_def outer_def loss_dout_def
        affine_def pre_act_def)
  then show ?thesis
    using assms
    by (simp add: nn_backward_def snd_nn_forward fst_nn_forward dot_T_def Let_def)
qed

lemma lrelu_inner_deriv:
  assumes "c \<le> 1" "a \<noteq> 0"
  shows "((\<lambda>w. lrelu c (a + x * (w - w0))) has_field_derivative ((if a \<ge> 0 then 1 else c) * x)) (at w0)"
proof -
  have inner: "((\<lambda>w. a + x * (w - w0)) has_field_derivative x) (at w0)"
    by (auto intro!: derivative_eq_intros)
  have outer: "(lrelu c has_field_derivative (if a \<ge> 0 then 1 else c)) (at (a + x * (w0 - w0)))"
    using leaky_deriv[OF assms] unfolding lrelu_def[abs_def] by simp
  show ?thesis
    using DERIV_chain'[OF inner outer] by (simp add: mult.commute)
qed

lemma nn_loss_W2_deriv:
  assumes "length y = length X" "j < length w2" "length w2 = length w1" "nv \<noteq> 0"
  shows "(nn_loss_W2 w1 w2 c nv X y j has_field_derivative
          (\<Sum>b<length X. - (2 / nv) * (y ! b - unit_out w1 w2 c (X ! b)) * lrelu c (pre_act w1 j (X ! b))))
         (at (w2 ! j))"
proof -
  have eq: "nn_loss_W2 w1 w2 c nv X y j =
     (\<lambda>v. (\<Sum>b<length X. (y ! b - (unit_out w1 w2 c (X ! b) + lrelu c (pre_act w1 j (X ! b)) * (v - w2 ! j)))\<^sup>2) / nv)"
    using assms
    by (auto simp: nn_loss_W2_def fst_nn_forward loss_sum unit_out_update_W2 pre_act_def fun_eq_iff)
  show ?thesis
    unfolding eq using assms(4)
    by (auto intro!: derivative_eq_intros simp: sum_divide_distrib sum_distrib_left sum_distrib_right
        intro!: sum.cong) 
qed

lemma nn_loss_W1_deriv:
  assumes "length y = length X" "j < length w1" "length w2 = length w1" "nv \<noteq> 0"
    and "i < length (w1 ! j)" "\<forall>x \<in> set X. length x = length (w1 ! j)"
    and "c \<le> 1" "\<forall>b<length X. pre_act w1 j (X ! b) \<noteq> 0"
  shows "(nn_loss_W1 w1 w2 c nv X y j i has_field_derivative
          (\<Sum>b<length X. (((if pre_act w1 j (X ! b) \<ge> 0 then 1 else 0) + c * (if pre_act w1 j (X ! b) < 0 then 1 else 0))
           * (- (2 / nv) * (y ! b - unit_out w1 w2 c (X ! b)) * w2 ! j)) * X ! b ! i))
         (at (w1 ! j ! i))"
proof -
  have eq: "nn_loss_W1 w1 w2 c nv X y j i =
     (\<lambda>w. (\<Sum>b<length X. (y ! b - (unit_out w1 w2 c (X ! b)
          + (lrelu c (pre_act w1 j (X ! b) + X ! b ! i * (w - w1 ! j ! i)) - lrelu c (pre_act w1 j (X ! b))) * w2 ! j))\<^sup>2) / nv)"
    using assms(1-6)
    by (auto simp: nn_loss_W1_def fst_nn_forward loss_sum unit_out_update_W1 pre_act_def fun_eq_iff)
  have d: "((\<lambda>w. lrelu c (pre_act w1 j (X ! b) + X ! b ! i * (w - w1 ! j ! i))) has_field_derivative
            ((if pre_act w1 j (X ! b) \<ge> 0 then 1 else c) * X ! b ! i)) (at (w1 ! j ! i))"
    if "b < length X" for b
    using lrelu_inner_deriv[OF assms(7)] assms(8) that by blast
  show ?thesis
    unfolding eq using assms(4)
    by (auto intro!: derivative_eq_intros d simp: sum_divide_distrib sum_distrib_left sum_distrib_right
        intro!: sum.cong) 
qed

lemma loss_sum_nth:
  "length y = n \<Longrightarrow> length out = n \<Longrightarrow>
   squared_error_loss nv y out = (\<Sum>b<n. (y ! b - out ! b)\<^sup>2) / nv"
  by (simp add: squared_error_loss_def sum_list_map2_nth[where n=n])

lemma fst_dropout_forward_mask:
  "fst (dropout_forward_mask a dm X) = map2 (dunit_out (W1 a) (W2 a) (leaky_coeff a)) X dm"
  by (simp add: dropout_forward_mask_def affine_def leaky_relu_def readout_def apply_mask_def
      dunit_out_def Let_def zip_map1 case_prod_unfold)

lemma snd_dropout_forward_mask:
  "snd (dropout_forward_mask a dm X) =
     (X, affine (W1 a) X, leaky_relu (leaky_coeff a) (affine (W1 a) X), dm,
      apply_mask (leaky_relu (leaky_coeff a) (affine (W1 a) X)) dm)"
  by (simp add: dropout_forward_mask_def Let_def)

lemma map2_update_left:
  "j < length ks \<Longrightarrow> map2 f (R[j := z]) ks = (map2 f R ks)[j := f z (ks ! j)]"
proof (rule nth_equalityI)
  show "length (map2 f (R[j := z]) ks) = length ((map2 f R ks)[j := f z (ks ! j)])" by simp
next
  fix i assume "i < length (map2 f (R[j := z]) ks)"
  then have "i < length R" "i < length ks" by simp_all
  then show "map2 f (R[j := z]) ks ! i = (map2 f R ks)[j := f z (ks ! j)] ! i"
    by (cases "i = j") simp_all
qed

lemma dunit_out_update_W1:
  assumes "j < length w1" "i < length (w1 ! j)" "length x = length (w1 ! j)" "length w2 = length w1"
    "length k = length w1"
  shows "dunit_out (w1[j := (w1 ! j)[i := w]]) w2 c x k =
         dunit_out w1 w2 c x k
         + (lrelu c (pre_act w1 j x + x ! i * (w - w1 ! j ! i)) - lrelu c (pre_act w1 j x))
            * (if k ! j then 1 else 0) * w2 ! j"
proof -
  let ?R = "map (\<lambda>v. max (c * v) v) (map (\<lambda>w. sum_list (map2 (*) x w)) w1)"
  let ?f = "\<lambda>v (k::bool). v * (if k then 1 else 0 :: real)"
  let ?z = "max (c * sum_list (map2 (*) x ((w1 ! j)[i := w]))) (sum_list (map2 (*) x ((w1 ! j)[i := w])))"
  have "dunit_out (w1[j := (w1 ! j)[i := w]]) w2 c x k
        = sum_list (map2 (*) ((map2 ?f ?R k)[j := ?f ?z (k ! j)]) w2)"
    using assms by (simp add: dunit_out_def map_update map2_update_left)
  also have "\<dots> = sum_list (map2 (*) (map2 ?f ?R k) w2) + (?f ?z (k ! j) - map2 ?f ?R k ! j) * w2 ! j"
    using assms by (subst sum_list_map2_update_left) simp_all
  also have "map2 ?f ?R k ! j = ?f (lrelu c (pre_act w1 j x)) (k ! j)"
    using assms by (simp add: lrelu_def pre_act_def)
  also have "?z = lrelu c (pre_act w1 j x + x ! i * (w - w1 ! j ! i))"
    using assms by (simp add: sum_list_map2_update_right lrelu_def pre_act_def)
  finally show ?thesis
    by (simp add: dunit_out_def algebra_simps)
qed

lemma dropout_backward_dW1_entry:
  assumes "noise_var a \<noteq> 0" "length y = length X" "j < length (W1 a)" "length (W2 a) = length (W1 a)"
    "i < ncols (W1 a)" "length dm = length X" "\<forall>k \<in> set dm. length k = length (W1 a)"
  shows "\<exists>dW1 dW2. dropout_model_backward a (fst (dropout_forward_mask a dm X))
            (snd (dropout_forward_mask a dm X)) y = Inr (dW1, dW2)
     \<and> dW1 ! j ! i = (\<Sum>b<length X.
          (((if pre_act (W1 a) j (X ! b) \<ge> 0 then 1 else 0)
             + leaky_coeff a * (if pre_act (W1 a) j (X ! b) < 0 then 1 else 0))
           * ((- (2 / noise_var a) * (y ! b - dunit_out (W1 a) (W2 a) (leaky_coeff a) (X ! b) (dm ! b)) * W2 a ! j)
              * (if dm ! b ! j then 1 else 0))) * X ! b ! i)"
proof -
  have "sum_list (map2 (\<lambda>r x. r ! j * x ! i)
          (map2 (map2 (*)) (relu_mask (leaky_coeff a) (affine (W1 a) X))
             (apply_mask (outer (loss_dout (noise_var a) y (map2 (dunit_out (W1 a) (W2 a) (leaky_coeff a)) X dm)) (W2 a)) dm)) X)
      = (\<Sum>b<length X.
          (((if pre_act (W1 a) j (X ! b) \<ge> 0 then 1 else 0)
             + leaky_coeff a * (if pre_act (W1 a) j (X ! b) < 0 then 1 else 0))
           * ((- (2 / noise_var a) * (y ! b - dunit_out (W1 a) (W2 a) (leaky_coeff a) (X ! b) (dm ! b)) * W2 a ! j)
              * (if dm ! b ! j then 1 else 0))) * X ! b ! i)"
    using assms
    by (simp add: sum_list_sum_nth atLeast0LessThan relu_mask_def outer_def loss_dout_def
        affine_def pre_act_def apply_mask_def)
  then show ?thesis
    using assms
    by (simp add: dropout_model_backward_def snd_dropout_forward_mask fst_dropout_forward_mask
        dot_T_def Let_def)
qed

lemma dropout_loss_W1_deriv:
  assumes "length y = length X" "j < length (W1 a)" "length (W2 a) = length (W1 a)" "noise_var a \<noteq> 0"
    and "i < length (W1 a ! j)" "\<forall>x \<in> set X. length x = length (W1 a ! j)"
    and "leaky_coeff a \<le> 1" "\<forall>b<length X. pre_act (W1 a) j (X ! b) \<noteq> 0"
    and "length dm = length X" "\<forall>k \<in> set dm. length k = length (W1 a)"
  shows "(dropout_loss_W1 a dm X y j i has_field_derivative
          (\<Sum>b<length X.
          (((if pre_act (W1 a) j (X ! b) \<ge> 0 then 1 else 0)
             + leaky_coeff a * (if pre_act (W1 a) j (X ! b) < 0 then 1 else 0))
           * ((- (2 / noise_var a) * (y ! b - dunit_out (W1 a) (W2 a) (leaky_coeff a) (X ! b) (dm ! b)) * W2 a ! j)
              * (if dm ! b ! j then 1 else 0))) * X ! b ! i))
         (at (W1 a ! j ! i))"
proof -
  have eq: "dropout_loss_W1 a dm X y j i =
     (\<lambda>w. (\<Sum>b<length X. (y ! b - (dunit_out (W1 a) (W2 a) (leaky_coeff a) (X ! b) (dm ! b)
          + (lrelu (leaky_coeff a) (pre_act (W1 a) j (X ! b) + X ! b ! i * (w - W1 a ! j ! i))
              - lrelu (leaky_coeff a) (pre_act (W1 a) j (X ! b)))
            * (if dm ! b ! j then 1 else 0) * W2 a ! j))\<^sup>2) / noise_var a)"
    using assms(1-6,9,10)
    by (auto simp: dropout_loss_W1_def fst_dropout_forward_mask loss_sum_nth[where n="length X"]
        dunit_out_update_W1 fun_eq_iff)
  have d: "((\<lambda>w. lrelu (leaky_coeff a) (pre_act (W1 a) j (X ! b) + X ! b ! i * (w - W1 a ! j ! i))) has_field_derivative
            ((if pre_act (W1 a) j (X ! b) \<ge> 0 then 1 else leaky_coeff a) * X ! b ! i)) (at (W1 a ! j ! i))"
    if "b < length X" for b
    using lrelu_inner_deriv[OF assms(7)] assms(8) that by blast
  show ?thesis
    unfolding eq using assms(4)
    by (auto intro!: derivative_eq_intros d simp: sum_divide_distrib sum_distrib_left sum_distrib_right
        intro!: sum.cong) 
qed

lemma loss_W1_nn: "loss_W1 a X y j i = nn_loss_W1 (W1 a) (W2 a) (leaky_coeff a) (noise_var a) X y j i"
  by (simp add: loss_W1_def nn_loss_W1_def model_forward_def fun_eq_iff)

lemma loss_W2_nn: "loss_W2 a X y j = nn_loss_W2 (W1 a) (W2 a) (leaky_coeff a) (noise_var a) X y j"
  by (simp add: loss_W2_def nn_loss_W2_def model_forward_def fun_eq_iff)

lemma ncols_rows: "j < length w1 \<Longrightarrow> \<forall>w \<in> set w1. length w = d \<Longrightarrow> ncols w1 = d \<and> length (w1 ! j) = d"
proof -
  assume j: "j < length w1" and r: "\<forall>w \<in> set w1. length w = d"
  from j r have "length (w1 ! j) = d" by simp
  moreover from j r have "ncols w1 = d" by (cases w1) (auto simp: ncols_def)
  ultimately show ?thesis by simp
qed

lemma pre_act_all:
  "(\<forall>x \<in> set X. pre_act w1 j x \<noteq> 0) \<Longrightarrow> \<forall>b<length X. pre_act w1 j (X ! b) \<noteq> 0"
  by simp

text \<open>
  C1, as the code has it. For weights, a minibatch and targets of matching shapes,
  \<^verbatim>\<open>noise_var\<close> not zero and \<^verbatim>\<open>leaky_coeff\<close> at most one, the backward passes return
  gradients such that
  \<^item> \<open>dW2\<close> of the plain pass is the derivative of the loss in every entry of \<open>W2\<close>;
  \<^item> the entry \<open>(j, i)\<close> of \<open>dW1\<close> of the plain pass is the derivative of the loss in the
    entry \<open>(j, i)\<close> of \<open>W1\<close>, when no pre-activation of hidden unit \<open>j\<close> on the batch is
    zero;
  \<^item> the same holds for \<open>dW1\<close> of the dropout pass and the loss of the forward pass with
    that mask: the gradient flows back through the mask.
\<close>

theorem backward_is_gradient:
  assumes "noise_var a \<noteq> 0" "leaky_coeff a \<le> 1" "length (W2 a) = length (W1 a)"
    and "length y = length X" "\<forall>x \<in> set X. length x = d" "\<forall>w \<in> set (W1 a). length w = d"
    and "length dm = length X" "\<forall>k \<in> set dm. length k = length (W1 a)"
  shows "\<exists>dW1 dW2 dW1' dW2'.
     model_backward a (fst (model_forward a X)) (snd (model_forward a X)) y = Inr (dW1, dW2) \<and>
     dropout_model_backward a (fst (dropout_forward_mask a dm X))
        (snd (dropout_forward_mask a dm X)) y = Inr (dW1', dW2') \<and>
     (\<forall>j<length (W2 a). (loss_W2 a X y j has_field_derivative dW2 ! j) (at (W2 a ! j))) \<and>
     (\<forall>j<length (W1 a). \<forall>i<d. (\<forall>x \<in> set X. pre_act (W1 a) j x \<noteq> 0) \<longrightarrow>
         (loss_W1 a X y j i has_field_derivative dW1 ! j ! i) (at (W1 a ! j ! i)) \<and>
         (dropout_loss_W1 a dm X y j i has_field_derivative dW1' ! j ! i) (at (W1 a ! j ! i)))"
proof -
  let ?fw = "nn_forward (W1 a) (W2 a) (leaky_coeff a) X"
  obtain dW1 dW2 where bw: "model_backward a (fst (model_forward a X)) (snd (model_forward a X)) y
      = Inr (dW1, dW2)"
    using assms(1)
    by (auto simp: model_backward_def model_forward_def nn_backward_def nn_forward_def Let_def)
  obtain dW1' dW2' where dbw: "dropout_model_backward a (fst (dropout_forward_mask a dm X))
        (snd (dropout_forward_mask a dm X)) y = Inr (dW1', dW2')"
    using assms(1)
    by (auto simp: dropout_model_backward_def dropout_forward_mask_def Let_def)
  from bw have nbw: "nn_backward (W1 a) (W2 a) (leaky_coeff a) (noise_var a) (fst ?fw) (snd ?fw) y
      = Inr (dW1, dW2)"
    by (simp add: model_backward_def model_forward_def)
  have p2: "(loss_W2 a X y j has_field_derivative dW2 ! j) (at (W2 a ! j))"
    if j: "j < length (W2 a)" for j
  proof -
    from backward_dW2_entry[OF assms(1,4) j assms(3), of "leaky_coeff a"] nbw
    have "dW2 ! j = (\<Sum>b<length X. - (2 / noise_var a) * (y ! b - unit_out (W1 a) (W2 a) (leaky_coeff a) (X ! b))
             * lrelu (leaky_coeff a) (pre_act (W1 a) j (X ! b)))"
      by auto
    with nn_loss_W2_deriv[OF assms(4) j assms(3,1), of "leaky_coeff a"] show ?thesis
      by (simp add: loss_W2_nn)
  qed
  have p1: "(loss_W1 a X y j i has_field_derivative dW1 ! j ! i) (at (W1 a ! j ! i)) \<and>
            (dropout_loss_W1 a dm X y j i has_field_derivative dW1' ! j ! i) (at (W1 a ! j ! i))"
    if j: "j < length (W1 a)" and i: "i < d" and nz: "\<forall>x \<in> set X. pre_act (W1 a) j x \<noteq> 0" for j i
  proof -
    from ncols_rows[OF j assms(6)] have nc: "ncols (W1 a) = d" "length (W1 a ! j) = d" by simp_all
    from assms(5) nc have xl: "\<forall>x \<in> set X. length x = length (W1 a ! j)" by simp
    from nz have nzb: "\<forall>b<length X. pre_act (W1 a) j (X ! b) \<noteq> 0" by simp
    have i1: "i < ncols (W1 a)" "i < length (W1 a ! j)" using i nc by simp_all
    from backward_dW1_entry[OF assms(1,4) j assms(3) i1(1), of "leaky_coeff a"] nbw
    have e1: "dW1 ! j ! i = (\<Sum>b<length X. (((if pre_act (W1 a) j (X ! b) \<ge> 0 then 1 else 0)
             + leaky_coeff a * (if pre_act (W1 a) j (X ! b) < 0 then 1 else 0))
           * (- (2 / noise_var a) * (y ! b - unit_out (W1 a) (W2 a) (leaky_coeff a) (X ! b)) * W2 a ! j)) * X ! b ! i)"
      by auto
    from dropout_backward_dW1_entry[OF assms(1,4) j assms(3) i1(1) assms(7,8)] dbw
    have e2: "dW1' ! j ! i = (\<Sum>b<length X.
          (((if pre_act (W1 a) j (X ! b) \<ge> 0 then 1 else 0)
             + leaky_coeff a * (if pre_act (W1 a) j (X ! b) < 0 then 1 else 0))
           * ((- (2 / noise_var a) * (y ! b - dunit_out (W1 a) (W2 a) (leaky_coeff a) (X ! b) (dm ! b)) * W2 a ! j)
              * (if dm ! b ! j then 1 else 0))) * X ! b ! i)"
      by auto
    from nn_loss_W1_deriv[OF assms(4) j assms(3,1) i1(2) xl assms(2) nzb] e1
    have "(loss_W1 a X y j i has_field_derivative dW1 ! j ! i) (at (W1 a ! j ! i))"
      by (simp add: loss_W1_nn)
    moreover from dropout_loss_W1_deriv[OF assms(4) j assms(3,1) i1(2) xl assms(2) nzb assms(7,8)] e2
    have "(dropout_loss_W1 a dm X y j i has_field_derivative dW1' ! j ! i) (at (W1 a ! j ! i))"
      by simp
    ultimately show ?thesis by simp
  qed
  from bw dbw p1 p2 show ?thesis by blast
qed

lemmas eval_backward = model_backward_def model_forward_def nn_backward_def nn_forward_def
  dropout_model_backward_def dropout_forward_mask_def apply_mask_def
  affine_def leaky_relu_def readout_def loss_dout_def scale_rows_def outer_def relu_mask_def
  sum_axis0_def dot_T_def ncols_def tiny_agent_def Let_def

theorem backward_is_gradient_witness:
  "(loss_W2 (tiny_agent 2) [[1]] [1] 0 has_field_derivative 4) (at 1) \<and>
   (loss_W1 (tiny_agent 2) [[1]] [1] 0 0 has_field_derivative 2) (at 2) \<and>
   (dropout_loss_W1 (tiny_agent 2) [[True]] [[1]] [1] 0 0 has_field_derivative 2) (at 2)"
proof -
  let ?a = "tiny_agent 2"
  have b1: "model_backward ?a (fst (model_forward ?a [[1]])) (snd (model_forward ?a [[1]])) [1]
      = Inr ([[2]], [4])"
    by (simp add: eval_backward)
  have b2: "dropout_model_backward ?a (fst (dropout_forward_mask ?a [[True]] [[1]]))
      (snd (dropout_forward_mask ?a [[True]] [[1]])) [1] = Inr ([[2]], [4])"
    by (simp add: eval_backward)
  have h: "noise_var ?a \<noteq> 0" "leaky_coeff ?a \<le> 1" "length (W2 ?a) = length (W1 ?a)"
    "length [1::real] = length [[1::real]]" "\<forall>x \<in> set [[1::real]]. length x = 1"
    "\<forall>w \<in> set (W1 ?a). length w = 1" "length [[True]] = length [[1::real]]"
    "\<forall>k \<in> set [[True]]. length k = length (W1 ?a)"
    by (simp_all add: tiny_agent_def)
  from backward_is_gradient [OF h] b1 b2
  have d2: "\<forall>j<length (W2 ?a). (loss_W2 ?a [[1]] [1] j has_field_derivative [4] ! j) (at (W2 ?a ! j))"
    and d1: "\<forall>j<length (W1 ?a). \<forall>i<1. (\<forall>x \<in> set [[1]]. pre_act (W1 ?a) j x \<noteq> 0) \<longrightarrow>
         (loss_W1 ?a [[1]] [1] j i has_field_derivative [[2]] ! j ! i) (at (W1 ?a ! j ! i)) \<and>
         (dropout_loss_W1 ?a [[True]] [[1]] [1] j i has_field_derivative [[2]] ! j ! i)
            (at (W1 ?a ! j ! i))"
    by auto
  have "0 < length (W2 ?a)" "0 < length (W1 ?a)" "W2 ?a ! 0 = 1" "W1 ?a ! 0 ! 0 = 2"
    "\<forall>x \<in> set [[1]]. pre_act (W1 ?a) 0 x \<noteq> 0"
    by (simp_all add: tiny_agent_def pre_act_def)
  with d2 d1 show ?thesis by force
qed

text \<open>
  The claim for every weight configuration fails in three places. Where a
  pre-activation is zero the Leaky ReLU has a kink and the loss has no derivative in that
  weight: the backward pass returns the slope of the right-hand side. The \<open>dW2\<close> of the
  dropout pass is computed from \<^verbatim>\<open>relu_out\<close>, not from \<^verbatim>\<open>dropout_out\<close>: for a unit the
  mask dropped, the loss does not depend on its second-layer weight, and the backward
  pass still returns a gradient that is not zero. And with \<^verbatim>\<open>leaky_coeff\<close> above one,
  \<^verbatim>\<open>np.maximum\<close> takes the steep branch on positive pre-activations, where the mask of
  the backward pass has slope one.
\<close>

lemma kink_loss: "loss_W1 (tiny_agent 0) [[1]] [1] 0 0 w = (1 - max (w / 100) w)\<^sup>2"
  by (simp add: loss_W1_def squared_error_loss_def eval_backward)

lemma kink_not_differentiable:
  "\<not> (loss_W1 (tiny_agent 0) [[1]] [1] 0 0 has_field_derivative (- 2)) (at 0)"
proof
  let ?f = "loss_W1 (tiny_agent 0) [[1]] [1] 0 0"
  assume "(?f has_field_derivative (- 2)) (at 0)"
  then have D1: "(?f has_field_derivative (- 2)) (at 0 within {- 1..0})"
    by (rule has_field_derivative_at_within)
  have "((\<lambda>w::real. (1 - w / 100)\<^sup>2) has_field_derivative (- (1 / 50))) (at 0 within {- 1..0})"
    by (auto intro!: derivative_eq_intros)
  then have D2: "(?f has_field_derivative (- (1 / 50))) (at 0 within {- 1..0})"
  proof (rule has_field_derivative_transform_within[where d = 1])
    show "(0::real) < 1" by simp
    show "(0::real) \<in> {- 1..0}" by simp
    fix x :: real assume "x \<in> {- 1..0}"
    then have "max (x / 100) x = x / 100" by (simp add: max_def)
    then show "(1 - x / 100)\<^sup>2 = ?f x" by (simp add: kink_loss)
  qed
  have "at (0::real) within {- 1..0} = at_left 0"
    by (rule at_within_Icc_at_left) simp
  then have nb: "at (0::real) within {- 1..0} \<noteq> bot"
    using trivial_limit_at_left_real[of 0] by (simp add: trivial_limit_def)
  from has_field_derivative_unique[OF D1 D2 nb] show False by simp
qed

lemma dropped_loss: "dropout_loss_W2 (tiny_agent 1) [[False]] [[1]] [1] 0 = (\<lambda>v. 1)"
  by (simp add: dropout_loss_W2_def squared_error_loss_def eval_backward fun_eq_iff)

lemma dropped_not_gradient:
  "\<not> (dropout_loss_W2 (tiny_agent 1) [[False]] [[1]] [1] 0 has_field_derivative (- 2)) (at 1)"
proof
  assume "(dropout_loss_W2 (tiny_agent 1) [[False]] [[1]] [1] 0 has_field_derivative (- 2)) (at 1)"
  then have "((\<lambda>v::real. 1::real) has_field_derivative (- 2)) (at 1)"
    by (simp add: dropped_loss)
  moreover have "((\<lambda>v::real. 1::real) has_field_derivative 0) (at 1)" by simp
  ultimately have "(- 2 :: real) = 0" by (rule DERIV_unique)
  then show False by simp
qed

lemma steep_loss:
  "loss_W1 ((tiny_agent 1)\<lparr>leaky_coeff := 2\<rparr>) [[1]] [0] 0 0 w = (max (2 * w) w)\<^sup>2"
  by (simp add: loss_W1_def squared_error_loss_def eval_backward)

lemma steep_not_gradient:
  "\<not> (loss_W1 ((tiny_agent 1)\<lparr>leaky_coeff := 2\<rparr>) [[1]] [0] 0 0 has_field_derivative 4) (at 1)"
proof
  let ?f = "loss_W1 ((tiny_agent 1)\<lparr>leaky_coeff := 2\<rparr>) [[1]] [0] 0 0"
  assume D1: "(?f has_field_derivative 4) (at 1)"
  have "((\<lambda>w::real. (2 * w)\<^sup>2) has_field_derivative 8) (at 1)"
    by (auto intro!: derivative_eq_intros)
  then have D2: "(?f has_field_derivative 8) (at 1)"
  proof (rule has_field_derivative_transform_within_open[where S = "{0<..}"])
    show "open {0::real<..}" by simp
    show "(1::real) \<in> {0<..}" by simp
    fix x :: real assume "x \<in> {0<..}"
    then have "max (2 * x) x = 2 * x" by (simp add: max_def)
    then show "(2 * x)\<^sup>2 = ?f x" by (simp add: steep_loss)
  qed
  from DERIV_unique[OF D1 D2] show False by simp
qed

theorem backward_not_gradient:
  "model_backward (tiny_agent 0) (fst (model_forward (tiny_agent 0) [[1]]))
      (snd (model_forward (tiny_agent 0) [[1]])) [1] = Inr ([[- 2]], [0]) \<and>
   \<not> (loss_W1 (tiny_agent 0) [[1]] [1] 0 0 has_field_derivative (- 2)) (at 0) \<and>
   dropout_model_backward (tiny_agent 1) (fst (dropout_forward_mask (tiny_agent 1) [[False]] [[1]]))
      (snd (dropout_forward_mask (tiny_agent 1) [[False]] [[1]])) [1] = Inr ([[0]], [- 2]) \<and>
   \<not> (dropout_loss_W2 (tiny_agent 1) [[False]] [[1]] [1] 0 has_field_derivative (- 2)) (at 1) \<and>
   model_backward ((tiny_agent 1)\<lparr>leaky_coeff := 2\<rparr>)
      (fst (model_forward ((tiny_agent 1)\<lparr>leaky_coeff := 2\<rparr>) [[1]]))
      (snd (model_forward ((tiny_agent 1)\<lparr>leaky_coeff := 2\<rparr>) [[1]])) [0] = Inr ([[4]], [8]) \<and>
   \<not> (loss_W1 ((tiny_agent 1)\<lparr>leaky_coeff := 2\<rparr>) [[1]] [0] 0 0 has_field_derivative 4) (at 1)"
proof -
  have "model_backward (tiny_agent 0) (fst (model_forward (tiny_agent 0) [[1]]))
      (snd (model_forward (tiny_agent 0) [[1]])) [1] = Inr ([[- 2]], [0])"
    by (simp add: eval_backward)
  moreover have "dropout_model_backward (tiny_agent 1)
      (fst (dropout_forward_mask (tiny_agent 1) [[False]] [[1]]))
      (snd (dropout_forward_mask (tiny_agent 1) [[False]] [[1]])) [1] = Inr ([[0]], [- 2])"
    by (simp add: eval_backward)
  moreover have "model_backward ((tiny_agent 1)\<lparr>leaky_coeff := 2\<rparr>)
      (fst (model_forward ((tiny_agent 1)\<lparr>leaky_coeff := 2\<rparr>) [[1]]))
      (snd (model_forward ((tiny_agent 1)\<lparr>leaky_coeff := 2\<rparr>) [[1]])) [0] = Inr ([[4]], [8])"
    by (simp add: eval_backward)
  ultimately show ?thesis
    using kink_not_differentiable dropped_not_gradient steep_not_gradient by simp
qed

section \<open>Shapes are kept\<close>

lemma rows_of_width_update:
  "rows_of_width d A \<Longrightarrow> length r = d \<Longrightarrow> rows_of_width d (A[i := r])"
  unfolding rows_of_width_def using set_update_subset_insert[of A i r] by auto

lemma rows_of_width_nth: "rows_of_width d A \<Longrightarrow> i < length A \<Longrightarrow> length (A ! i) = d"
  by (simp add: rows_of_width_def)

lemma length_vec_ops:
  "length (vec_scale c v) = length v"
  "length (vec_div v n) = length v"
  "length (vec_add u v) = min (length u) (length v)"
  "length (vec_sub u v) = min (length u) (length v)"
  by (simp_all add: vec_scale_def vec_div_def vec_add_def vec_sub_def)

lemma length_mat_ops:
  "length (mat_scale c A) = length A"
  "length (mat_div A n) = length A"
  "length (mat_add A B) = min (length A) (length B)"
  "length (mat_sub A B) = min (length A) (length B)"
  by (simp_all add: mat_scale_def mat_div_def mat_add_def mat_sub_def)

lemma rows_mat_scale: "rows_of_width d A \<Longrightarrow> rows_of_width d (mat_scale c A)"
  by (auto simp: rows_of_width_def mat_scale_def vec_scale_def)

lemma rows_mat_div: "rows_of_width d A \<Longrightarrow> rows_of_width d (mat_div A n)"
  by (auto simp: rows_of_width_def mat_div_def)

lemma rows_map2:
  assumes "rows_of_width d A" "rows_of_width d B"
  shows "rows_of_width d (map2 (map2 f) A B)"
  unfolding rows_of_width_def
proof
  fix r assume "r \<in> set (map2 (map2 f) A B)"
  then obtain x y where "(x, y) \<in> set (zip A B)" "r = map2 f x y" by auto
  moreover from this have "x \<in> set A" "y \<in> set B" by (auto dest: set_zip_leftD set_zip_rightD)
  ultimately show "length r = d" using assms by (simp add: rows_of_width_def)
qed

lemma rows_mat_add: "rows_of_width d A \<Longrightarrow> rows_of_width d B \<Longrightarrow> rows_of_width d (mat_add A B)"
  unfolding mat_add_def vec_add_def by (rule rows_map2)

lemma rows_mat_sub: "rows_of_width d A \<Longrightarrow> rows_of_width d B \<Longrightarrow> rows_of_width d (mat_sub A B)"
  unfolding mat_sub_def vec_sub_def by (rule rows_map2)

lemma dot_T_shape: "length (dot_T h d A X) = h \<and> rows_of_width d (dot_T h d A X)"
  by (auto simp: dot_T_def rows_of_width_def)

lemma sum_axis0_length: "length (sum_axis0 h A) = h"
  by (simp add: sum_axis0_def)

lemma nn_backward_shape:
  assumes "nn_backward w1 w2 c nv out cache y = Inr (dW1, dW2)"
  shows "length dW1 = length w1 \<and> rows_of_width (ncols w1) dW1 \<and> length dW2 = length w1"
  using assms dot_T_shape sum_axis0_length
  by (auto simp: nn_backward_def Let_def split: prod.splits if_splits)

lemma dropout_model_backward_shape:
  assumes "dropout_model_backward a out cache y = Inr (dW1, dW2)"
  shows "length dW1 = length (W1 a) \<and> rows_of_width (ncols (W1 a)) dW1 \<and> length dW2 = length (W1 a)"
  using assms dot_T_shape sum_axis0_length
  by (auto simp: dropout_model_backward_def Let_def split: prod.splits if_splits)

lemma forward_backward_shape:
  assumes "forward_backward a X y g = (Inr (dW1, dW2), g')"
  shows "length dW1 = length (W1 a) \<and> rows_of_width (ncols (W1 a)) dW1 \<and> length dW2 = length (W1 a)"
proof (cases "variant a")
  case (Dropout p)
  with assms dropout_model_backward_shape show ?thesis
    by (auto simp: forward_backward_def split: prod.splits)
next
  case (EpsilonGreedy e)
  with assms nn_backward_shape show ?thesis
    by (auto simp: forward_backward_def model_backward_def split: prod.splits)
next
  case (EpsilonGreedyAnnealing e)
  with assms nn_backward_shape show ?thesis
    by (auto simp: forward_backward_def model_backward_def split: prod.splits)
qed

lemma rows_ncols: "rows_of_width d A \<Longrightarrow> rows_of_width (ncols A) B \<Longrightarrow> length B = length A \<Longrightarrow> rows_of_width d B"
  by (cases A) (auto simp: ncols_def rows_of_width_def)

lemma gradient_step_frame:
  "actions (fst (snd (gradient_step a t g))) = actions a \<and>
   num_actions (fst (snd (gradient_step a t g))) = num_actions a \<and>
   T (fst (snd (gradient_step a t g))) = T a \<and>
   action_hist (fst (snd (gradient_step a t g))) = action_hist a \<and>
   reward_hist (fst (snd (gradient_step a t g))) = reward_hist a"
  by (simp add: gradient_step_def Let_def split: prod.splits sum.splits)

lemma gradient_step_error_agent:
  "gradient_step a t g = (Inl e, a', g') \<Longrightarrow> a' = a"
  by (auto simp: gradient_step_def Let_def split: prod.splits sum.splits if_splits)

lemma gradient_step_shapes:
  assumes "agent_shapes d a"
  shows "agent_shapes d (fst (snd (gradient_step a t g)))"
proof -
  obtain r a' g' where st: "gradient_step a t g = (r, a', g')"
    by (cases "gradient_step a t g")
  show ?thesis
  proof (cases r)
    case (Inl e)
    with st gradient_step_error_agent have "a' = a" by blast
    with st assms show ?thesis by simp
  next
    case (Inr u)
    with st have st': "gradient_step a t g = (Inr (), a', g')" by simp
    from gradient_step_weights[OF st'] obtain bi ab rb g1 dW1 dW2 where
      fb: "forward_backward a ab rb g1 = (Inr (dW1, dW2), g')" and
      w1: "W1 a' = mat_sub (W1 a) (mat_scale (lr a)
                     (mat_add (mat_div dW1 (of_int (batch_size a)))
                        (reg_term (prior_var a) t (W1 a) (zeros_like (W1 a)))))" and
      w2: "W2 a' = vec_sub (W2 a) (vec_scale (lr a)
                     (vec_add (vec_div dW2 (of_int (batch_size a)))
                        (reg_term_vec (prior_var a) t (W2 a) (map (\<lambda>_. 0) (W2 a)))))"
      by blast
    from assms have s: "rows_of_width d (W1 a)" "length (W2 a) = length (W1 a)"
      by (simp_all add: agent_shapes_def)
    from forward_backward_shape[OF fb] have b: "length dW1 = length (W1 a)"
      "rows_of_width (ncols (W1 a)) dW1" "length dW2 = length (W1 a)" by simp_all
    from rows_ncols[OF s(1) b(2) b(1)] have bd: "rows_of_width d dW1" .
    have rw: "rows_of_width d (reg_term (prior_var a) t (W1 a) (zeros_like (W1 a)))"
      "length (reg_term (prior_var a) t (W1 a) (zeros_like (W1 a))) = length (W1 a)"
      using s(1) by (simp_all add: reg_term_def mat_sub_zeros rows_mat_scale length_mat_ops)
    have "rows_of_width d (W1 a')"
      unfolding w1 using s(1) bd rw(1)
      by (intro rows_mat_sub rows_mat_scale rows_mat_add rows_mat_div)
    moreover have "length (W1 a') = length (W1 a)"
      unfolding w1 using b(1) rw(2) by (simp add: length_mat_ops)
    moreover have "length (W2 a') = length (W2 a)"
      unfolding w2 using b(3) s(2)
      by (simp add: length_vec_ops reg_term_vec_def vec_sub_zeros)
    ultimately show ?thesis
      using assms st gradient_step_frame[of a t g] s(2)
      by (simp add: agent_shapes_def)
  qed
qed

lemma update_model_loop_shapes:
  "agent_shapes d a \<Longrightarrow> wf_agent a \<Longrightarrow>
   agent_shapes d (fst (snd (update_model_loop n a t g))) \<and>
   wf_agent (fst (snd (update_model_loop n a t g)))"
proof (induction n arbitrary: a g)
  case 0
  then show ?case by simp
next
  case (Suc n)
  obtain r a' g' where st: "gradient_step a t g = (r, a', g')"
    by (cases "gradient_step a t g")
  from gradient_step_shapes[OF Suc.prems(1), of t g] st have s: "agent_shapes d a'" by simp
  from gradient_step_frame[of a t g] st Suc.prems(2) have w: "wf_agent a'"
    by (simp add: wf_agent_def)
  show ?case
  proof (cases r)
    case (Inl e)
    with st s w show ?thesis by simp
  next
    case (Inr u)
    with st Suc.IH[OF s w, of g'] show ?thesis by simp
  qed
qed

lemma np_index_bound: "np_index n i = Inr k \<Longrightarrow> k < n"
  by (auto simp: np_index_def split: if_splits)

lemma update_observation_shapes:
  assumes "agent_shapes d a" "wf_agent a"
  shows "agent_shapes d (fst (snd (update_observation a t action reward g))) \<and>
         wf_agent (fst (snd (update_observation a t action reward g)))"
proof (cases "np_index (length (actions a)) action")
  case (Inl e)
  with assms show ?thesis by (simp add: update_observation_def)
next
  case k: (Inr k)
  show ?thesis
  proof (cases "np_index (length (action_hist a)) t")
    case (Inl e)
    with assms k show ?thesis by (simp add: update_observation_def)
  next
    case ti: (Inr ti)
    let ?a1 = "a\<lparr>action_hist := (action_hist a)[ti := actions a ! k]\<rparr>"
    from np_index_bound[OF k] assms(1) have "length (actions a ! k) = d"
      by (simp add: agent_shapes_def rows_of_width_nth)
    with assms(1) have s1: "agent_shapes d ?a1"
      by (simp add: agent_shapes_def rows_of_width_update)
    from assms(2) have w1: "wf_agent ?a1" by (simp add: wf_agent_def)
    show ?thesis
    proof (cases "np_index (length (reward_hist ?a1)) t")
      case (Inl e)
      with k ti s1 w1 show ?thesis by (simp add: update_observation_def Let_def)
    next
      case tr: (Inr tr)
      let ?a2 = "?a1\<lparr>reward_hist := (reward_hist ?a1)[tr := reward]\<rparr>"
      from s1 have s2: "agent_shapes d ?a2" by (simp add: agent_shapes_def)
      from w1 have w2: "wf_agent ?a2" by (simp add: wf_agent_def)
      obtain r3 a3 g3 where um: "update_model ?a2 t g = (r3, a3, g3)"
        by (cases "update_model ?a2 t g")
      from update_model_loop_shapes[OF s2 w2, of "nat (num_gradient_steps ?a2)" t g] um
      have s3: "agent_shapes d a3" "wf_agent a3" by (simp_all add: update_model_def)
      then have "agent_shapes d (a3\<lparr>lr := lr a3 * lr_decay a3\<rparr>)"
        "wf_agent (a3\<lparr>lr := lr a3 * lr_decay a3\<rparr>)"
        by (simp_all add: agent_shapes_def wf_agent_def)
      with k ti tr um s3 show ?thesis
        by (cases r3) (simp_all add: update_observation_def Let_def)
    qed
  qed
qed

lemma init_agent_shapes:
  assumes "init_agent v idim hdim acts th pv nv lr0 ngs bs dec lc g0 = (Inr a, g1)"
    "rows_of_width (nat idim) acts"
  shows "agent_shapes (nat idim) a"
  using assms
  by (auto simp: init_agent_def agent_shapes_def rows_of_width_def rd_randn_shape_def
      rd_randn_vec_def mat_scale_def vec_scale_def split: if_splits)

lemma list_all_update: "list_all P xs \<Longrightarrow> P x \<Longrightarrow> list_all P (xs[i := x])"
  unfolding list_all_iff using set_update_subset_insert[of xs i x] by auto

lemma write_member_shapes:
  assumes "ensemble_shapes d h e s" "member_shape d h w1" "length w2 = h"
  shows "ensemble_shapes d h e (write_member e m w1 w2 s)"
  using assms
  by (auto simp: ensemble_shapes_def write_member_def list_all_update rows_of_width_update)

lemma ensemble_shapes_agent:
  "ensemble_shapes d h e s \<Longrightarrow> actions e' = actions e \<Longrightarrow> action_hist e' = action_hist e \<Longrightarrow>
   W1_ref e' = W1_ref e \<Longrightarrow> W2_ref e' = W2_ref e \<Longrightarrow>
   W1_model_prior e' = W1_model_prior e \<Longrightarrow> W2_model_prior e' = W2_model_prior e \<Longrightarrow>
   ensemble_shapes d h e' s"
  by (simp add: ensemble_shapes_def)

lemma ensemble_gradient_step_error_store:
  "ensemble_gradient_step e s m t g = (Inl err, s', g') \<Longrightarrow> s' = s"
  by (auto simp: ensemble_gradient_step_def Let_def split: prod.splits sum.splits if_splits)

lemma ensemble_gradient_step_rows:
  assumes "ensemble_gradient_step e s m t g = (Inr (), s', g')"
  shows "m < length (arrays3 s (W1_ref e)) \<and> m < length (arrays2 s (W2_ref e)) \<and>
         m < length (arrays3 s (W1_model_prior e)) \<and> m < length (arrays2 s (W2_model_prior e))"
  using assms
  by (auto simp: ensemble_gradient_step_def ensemble_model_forward_def row_at_def Let_def
      split: prod.splits sum.splits if_splits)

lemma ensemble_model_backward_shape:
  assumes "ensemble_model_backward e s m out cache y = Inr (dW1, dW2)"
  shows "length dW1 = length (arrays3 s (W1_ref e) ! m) \<and>
         rows_of_width (ncols (arrays3 s (W1_ref e) ! m)) dW1 \<and>
         length dW2 = length (arrays3 s (W1_ref e) ! m)"
  using assms nn_backward_shape
  by (auto simp: ensemble_model_backward_def row_at_def split: if_splits sum.splits)

lemma ensemble_gradient_step_shapes:
  assumes "ensemble_shapes d h e s"
  shows "ensemble_shapes d h e (fst (snd (ensemble_gradient_step e s m t g)))"
proof -
  obtain r s' g' where st: "ensemble_gradient_step e s m t g = (r, s', g')"
    by (cases "ensemble_gradient_step e s m t g")
  show ?thesis
  proof (cases r)
    case (Inl err)
    with st ensemble_gradient_step_error_store have "s' = s" by blast
    with st assms show ?thesis by simp
  next
    case (Inr u)
    with st have st': "ensemble_gradient_step e s m t g = (Inr (), s', g')" by simp
    from ensemble_gradient_step_rows[OF st'] have len:
      "m < length (arrays3 s (W1_ref e))" "m < length (arrays2 s (W2_ref e))"
      "m < length (arrays3 s (W1_model_prior e))" "m < length (arrays2 s (W2_model_prior e))"
      by simp_all
    let ?w1 = "arrays3 s (W1_ref e) ! m" and ?w2 = "arrays2 s (W2_ref e) ! m"
    let ?p1 = "arrays3 s (W1_model_prior e) ! m" and ?p2 = "arrays2 s (W2_model_prior e) ! m"
    from assms len have sh: "member_shape d h ?w1" "length ?w2 = h" "member_shape d h ?p1"
      "length ?p2 = h"
      by (simp_all add: ensemble_shapes_def list_all_length rows_of_width_nth)
    from ensemble_gradient_step_weights[OF st'] obtain out cache rb dW1 dW2 where
      bw: "ensemble_model_backward e s m out cache rb = Inr (dW1, dW2)" and
      n1: "arrays3 s' (W1_ref e) ! m = mat_sub ?w1 (mat_scale (lr e)
               (mat_add (mat_div dW1 (of_int (batch_size e)))
                  (reg_term (prior_var e) t ?w1 ?p1)))" and
      n2: "arrays2 s' (W2_ref e) ! m = vec_sub ?w2 (vec_scale (lr e)
               (vec_add (vec_div dW2 (of_int (batch_size e)))
                  (reg_term_vec (prior_var e) t ?w2 ?p2)))"
      by blast
    from ensemble_model_backward_shape[OF bw] sh(1) have b: "length dW1 = h"
      "rows_of_width (ncols ?w1) dW1" "length dW2 = h"
      by (simp_all add: member_shape_def)
    from sh(1) b(1) have "rows_of_width d dW1"
      using rows_ncols[of d ?w1 dW1] b(2) by (simp add: member_shape_def)
    moreover have "rows_of_width d (reg_term (prior_var e) t ?w1 ?p1)"
      using sh(1,3) by (simp add: reg_term_def member_shape_def rows_mat_scale rows_mat_sub)
    ultimately have r1: "rows_of_width d (arrays3 s' (W1_ref e) ! m)"
      unfolding n1 using sh(1)
      by (intro rows_mat_sub rows_mat_scale rows_mat_add rows_mat_div)
        (simp_all add: member_shape_def)
    have l1: "length (arrays3 s' (W1_ref e) ! m) = h"
      unfolding n1 using sh(1,3) b(1)
      by (simp add: length_mat_ops reg_term_def member_shape_def)
    have l2: "length (arrays2 s' (W2_ref e) ! m) = h"
      unfolding n2 using sh(2,4) b(3)
      by (simp add: length_vec_ops reg_term_vec_def)
    obtain v1 v2 where w: "s' = write_member e m v1 v2 s"
      using ensemble_gradient_step_store[of e s m t g] st by auto
    with len have "arrays3 s' (W1_ref e) ! m = v1" "arrays2 s' (W2_ref e) ! m = v2"
      by (simp_all add: write_member_def)
    with r1 l1 l2 have "member_shape d h v1" "length v2 = h"
      by (simp_all add: member_shape_def)
    from write_member_shapes[OF assms this] w st show ?thesis by simp
  qed
qed

lemma ensemble_update_model_loop_shapes:
  "ensemble_shapes d h e s \<Longrightarrow>
   ensemble_shapes d h e (fst (snd (ensemble_update_model_loop n e s m t g)))"
proof (induction n arbitrary: s g)
  case 0
  then show ?case by simp
next
  case (Suc n)
  obtain r s1 g1 where st: "ensemble_gradient_step e s m t g = (r, s1, g1)"
    by (cases "ensemble_gradient_step e s m t g")
  from ensemble_gradient_step_shapes[OF Suc.prems, of m t g] st
  have s1: "ensemble_shapes d h e s1" by simp
  show ?case
  proof (cases r)
    case (Inl err)
    with st s1 show ?thesis by simp
  next
    case (Inr u)
    with st Suc.IH[OF s1, of g1] show ?thesis by simp
  qed
qed

lemma ensemble_member_update_shapes:
  assumes "ensemble_shapes d h e s"
    "ensemble_member_update e s t reward m g = (r, (e', s'), g')"
  shows "ensemble_shapes d h e' s'"
proof (cases "e' = e \<and> s' = s")
  case True
  with assms(1) show ?thesis by simp
next
  case False
  with assms(2) obtain ti z where
    e': "e' = e\<lparr>model_reward_hist := (model_reward_hist e)[m :=
                 (model_reward_hist e ! m)[ti := reward + sqrt (noise_var e) * z]]\<rparr>" and
    s': "s' = fst (snd (ensemble_update_model e' s m t (advance 1 g)))"
    by (auto simp: ensemble_member_update_def rd_randn_def row_at_def Let_def
        split: if_splits sum.splits prod.splits)
  from assms(1) e' have "ensemble_shapes d h e' s"
    by (simp add: ensemble_shapes_def)
  from ensemble_update_model_loop_shapes[OF this] s' show ?thesis
    by (simp add: ensemble_update_model_def)
qed

lemma ensemble_members_loop_shapes:
  "ensemble_shapes d h e s \<Longrightarrow>
   ensemble_members_loop ms e s t reward g = (r, (e', s'), g') \<Longrightarrow>
   ensemble_shapes d h e' s'"
proof (induction ms arbitrary: e s g)
  case Nil
  then show ?case by simp
next
  case (Cons m ms)
  obtain r1 e1 s1 g1 where st: "ensemble_member_update e s t reward m g = (r1, (e1, s1), g1)"
    by (metis prod.exhaust)
  from ensemble_member_update_shapes[OF Cons.prems(1) st] have s1: "ensemble_shapes d h e1 s1" .
  show ?case
  proof (cases r1)
    case (Inl err)
    with st Cons.prems(2) s1 show ?thesis by simp
  next
    case (Inr u)
    with st Cons.prems(2) have "ensemble_members_loop ms e1 s1 t reward g1 = (r, (e', s'), g')"
      by simp
    from Cons.IH[OF s1 this] show ?thesis .
  qed
qed

lemma ensemble_update_observation_shapes:
  assumes "ensemble_shapes d h e s" "wf_ensemble e s"
    "ensemble_update_observation e s t action reward g = (r, (e', s'), g')"
  shows "ensemble_shapes d h e' s' \<and> wf_ensemble e' s'"
proof -
  from ensemble_update_observation_frames[OF assms(3)] assms(2)
  have wf: "wf_ensemble e' s'" using frames_wf by blast
  have "ensemble_shapes d h e' s'"
  proof (cases "np_index (length (actions e)) action")
    case (Inl err)
    with assms show ?thesis by (auto simp: ensemble_update_observation_def)
  next
    case k: (Inr k)
    show ?thesis
    proof (cases "np_index (length (action_hist e)) t")
      case (Inl err)
      with assms k show ?thesis by (auto simp: ensemble_update_observation_def)
    next
      case ti: (Inr ti)
      let ?e1 = "e\<lparr>action_hist := (action_hist e)[ti := actions e ! k]\<rparr>"
      from np_index_bound[OF k] assms(1) have "length (actions e ! k) = d"
        by (simp add: ensemble_shapes_def rows_of_width_nth)
      with assms(1) have s1: "ensemble_shapes d h ?e1 s"
        by (simp add: ensemble_shapes_def rows_of_width_update)
      obtain r2 e2 s2 g2 where lp:
        "ensemble_members_loop [0..<nat (M ?e1)] ?e1 s t reward g = (r2, (e2, s2), g2)"
        by (metis prod.exhaust)
      from ensemble_members_loop_shapes[OF s1 lp] have s2: "ensemble_shapes d h e2 s2" .
      then have "ensemble_shapes d h (e2\<lparr>lr := lr e2 * lr_decay e2\<rparr>) s2"
        by (simp add: ensemble_shapes_def)
      with assms(3) k ti lp s2 show ?thesis
        by (cases r2) (auto simp: ensemble_update_observation_def Let_def)
    qed
  qed
  with wf show ?thesis by simp
qed

lemma init_ensemble_shapes:
  assumes "init_ensemble idim hdim acts th pv nv nm lr0 ngs bs dec lc s0 g0 = (Inr (e, s), g1)"
    "rows_of_width (nat idim) acts"
  shows "ensemble_shapes (nat idim) (nat hdim) e s"
  using assms
  by (auto simp: init_ensemble_def ensemble_shapes_def rows_of_width_def member_shape_def
      list_all_iff rd_randn_shape3_def rd_randn_shape_def new_array3_def new_array2_def
      mat_scale_def vec_scale_def split: if_splits)

lemma example_agent_shapes: "agent_shapes 2 (example_agent v)"
  by (simp add: agent_shapes_def rows_of_width_def example_agent_def)

lemma example_ensemble_shapes: "ensemble_shapes 2 2 example_ensemble example_store"
  by (simp add: ensemble_shapes_def rows_of_width_def member_shape_def example_ensemble_def
      example_store_def example_prior1_def example_prior2_def)

section \<open>Updates with a batch larger than the history\<close>

text \<open>
  C3, as the code has it. A call of \<^verbatim>\<open>update_observation\<close> at a time step \<open>t\<close> with
  \<^verbatim>\<open>batch_size\<close> larger than \<open>t + 1\<close> raises nothing: \<^verbatim>\<open>rd.randint(t + 1,
  size=batch_size)\<close> draws with replacement, and the call returns, for a well-formed agent
  with arrays of matching shapes, a time step and an action in range and variances that
  are not zero (positive noise variance for the ensemble). The agent it leaves is
  well-formed with arrays of the same shapes; every gradient step on the way keeps them.
\<close>

theorem oversized_batch_proceeds:
  "(wf_agent a \<and> agent_shapes d a \<and> 0 \<le> t \<and> t < T a \<and> 0 \<le> action \<and>
      action < num_actions a \<and> t + 1 < batch_size a \<and> noise_var a \<noteq> 0 \<and> prior_var a \<noteq> 0 \<longrightarrow>
      fst (update_observation a t action reward g) = Inr () \<and>
      wf_agent (fst (snd (update_observation a t action reward g))) \<and>
      agent_shapes d (fst (snd (update_observation a t action reward g)))) \<and>
   (wf_ensemble e s \<and> ensemble_shapes d2 h e s \<and> 0 \<le> t \<and> t < T e \<and> 0 \<le> action \<and>
      action < num_actions e \<and> t + 1 < batch_size e \<and> 0 < noise_var e \<and> prior_var e \<noteq> 0 \<longrightarrow>
      fst (ensemble_update_observation e s t action reward g) = Inr () \<and>
      wf_ensemble (fst (fst (snd (ensemble_update_observation e s t action reward g))))
        (snd (fst (snd (ensemble_update_observation e s t action reward g)))) \<and>
      ensemble_shapes d2 h (fst (fst (snd (ensemble_update_observation e s t action reward g))))
        (snd (fst (snd (ensemble_update_observation e s t action reward g)))))"
proof (intro conjI impI)
  assume h: "wf_agent a \<and> agent_shapes d a \<and> 0 \<le> t \<and> t < T a \<and> 0 \<le> action \<and>
      action < num_actions a \<and> t + 1 < batch_size a \<and> noise_var a \<noteq> 0 \<and> prior_var a \<noteq> 0"
  then show "fst (update_observation a t action reward g) = Inr ()"
    using update_observation_ok[of a t action reward g] by simp
  from h update_observation_shapes[of d a t action reward g]
  show "wf_agent (fst (snd (update_observation a t action reward g)))"
    "agent_shapes d (fst (snd (update_observation a t action reward g)))"
    by simp_all
next
  let ?x = "ensemble_update_observation e s t action reward g"
  assume h: "wf_ensemble e s \<and> ensemble_shapes d2 h e s \<and> 0 \<le> t \<and> t < T e \<and> 0 \<le> action \<and>
      action < num_actions e \<and> t + 1 < batch_size e \<and> 0 < noise_var e \<and> prior_var e \<noteq> 0"
  then show "fst ?x = Inr ()"
    using ensemble_update_observation_ok[of e s t action reward g] by simp
  have "?x = (fst ?x, (fst (fst (snd ?x)), snd (fst (snd ?x))), snd (snd ?x))" by simp
  from ensemble_update_observation_shapes[OF _ _ this, of d2 h] h
  show "wf_ensemble (fst (fst (snd ?x))) (snd (fst (snd ?x)))"
    "ensemble_shapes d2 h (fst (fst (snd ?x))) (snd (fst (snd ?x)))"
    by simp_all
qed

theorem oversized_batch_proceeds_witness:
  "fst (update_observation (example_agent (Dropout (1 / 2))) 0 1 1 example_rng) = Inr () \<and>
   agent_shapes 2 (fst (snd (update_observation (example_agent (Dropout (1 / 2))) 0 1 1
      example_rng))) \<and>
   fst (ensemble_update_observation example_ensemble example_store 0 1 1 example_rng) = Inr ()"
  using oversized_batch_proceeds [of "example_agent (Dropout (1 / 2))" 2 0 1 1 example_rng
      example_ensemble example_store 2 2]
    example_agent_wf example_ensemble_wf example_agent_shapes example_ensemble_shapes
  by (simp add: example_agent_def example_ensemble_def)

text \<open>
  The claim that such a call raises an error fails on the agents of the example, whose
  batch size is 2, at the first time step.
\<close>

theorem oversized_batch_no_error:
  "0 + 1 < batch_size (example_agent (EpsilonGreedy 0)) \<and>
   fst (update_observation (example_agent (EpsilonGreedy 0)) 0 0 1 example_rng) = Inr () \<and>
   0 + 1 < batch_size example_ensemble \<and>
   fst (ensemble_update_observation example_ensemble example_store 0 0 1
          (advance 12 example_rng)) = Inr ()"
proof -
  have "fst (update_observation (example_agent (EpsilonGreedy 0)) 0 0 1 example_rng) = Inr ()"
    by (simp add: update_observation_def np_index_def example_agent_def update_model_def
      gradient_step_def sample_minibatch_def rd_randint_size_def np_take_def example_rng_def
      forward_backward_def model_forward_def model_backward_def nn_forward_def nn_backward_def
      Let_def upt_conv_Cons split: prod.splits sum.splits)
  moreover have "fst (ensemble_update_observation example_ensemble example_store 0 0 1
          (advance 12 example_rng)) = Inr ()"
    by (simp add: eval_ensemble)
  ultimately show ?thesis
    by (simp add: example_agent_def example_ensemble_def)
qed

section \<open>The range of the index \<^verbatim>\<open>pick_action\<close> returns\<close>

text \<open>
  C10, as the code has it. For an agent whose \<^verbatim>\<open>num_actions\<close> is the length of a
  non-empty action set and whose arrays have matching shapes (the rows of the action set
  as wide as the rows of the first-layer weights), \<^verbatim>\<open>pick_action\<close> returns an index
  below \<^verbatim>\<open>num_actions\<close>, in the explore and in the exploit branch: always for the fixed
  epsilon-greedy and the dropout agent, for the annealing agent when
  \<^verbatim>\<open>epsilon_param + t\<close> is not zero, and for a well-formed ensemble with at least one
  member. The constructors give these shapes for an action set of width \<^verbatim>\<open>input_dim\<close>,
  and \<^verbatim>\<open>update_observation\<close> keeps them.
\<close>

theorem pick_action_in_range:
  "(num_actions a = int (length (actions a)) \<and> actions a \<noteq> [] \<and> agent_shapes d a \<longrightarrow>
      (\<exists>i. fst (pick_action eps a t g) = Inr i \<and> int i < num_actions a) \<and>
      (eps + of_int t \<noteq> 0 \<longrightarrow>
         (\<exists>i. fst (annealing_pick_action eps a t g) = Inr i \<and> int i < num_actions a)) \<and>
      (\<exists>i. fst (dropout_pick_action p a t g) = Inr i \<and> int i < num_actions a)) \<and>
   (wf_ensemble e s \<and> ensemble_shapes d2 h e s \<and> 0 < M e \<and> actions e \<noteq> [] \<longrightarrow>
      (\<exists>i. fst (ensemble_pick_action e s t g) = Inr i \<and> int i < num_actions e))"
  using epsilon_greedy_choice_in_range[of a] dropout_pick_action_in_range[of a]
    ensemble_pick_action_in_range[of e s]
  by (simp add: pick_action_def annealing_pick_action_def Let_def)

theorem pick_action_in_range_witness:
  "(\<exists>i. fst (pick_action 1 (example_agent (EpsilonGreedy 1)) 0 example_rng) = Inr i \<and> i < 2) \<and>
   (\<exists>i. fst (annealing_pick_action 1 (example_agent (EpsilonGreedyAnnealing 1)) 0 example_rng)
          = Inr i \<and> i < 2) \<and>
   (\<exists>i. fst (dropout_pick_action (1 / 2) (example_agent (Dropout (1 / 2))) 0 example_rng)
          = Inr i \<and> i < 2) \<and>
   (\<exists>i. fst (ensemble_pick_action example_ensemble example_store 0 example_rng) = Inr i \<and> i < 2)"
proof -
  have a: "num_actions (example_agent v) = int (length (actions (example_agent v)))"
    "actions (example_agent v) \<noteq> []" "num_actions (example_agent v) = 2" for v
    by (simp_all add: example_agent_def)
  have e: "0 < M example_ensemble" "actions example_ensemble \<noteq> []"
    "num_actions example_ensemble = 2"
    by (simp_all add: example_ensemble_def)
  show ?thesis
    using pick_action_in_range [of "example_agent (EpsilonGreedy 1)" 2 1 0 example_rng "1 / 2"
        example_ensemble example_store 2 2]
      pick_action_in_range [of "example_agent (EpsilonGreedyAnnealing 1)" 2 1 0 example_rng "1 / 2"
        example_ensemble example_store 2 2]
      pick_action_in_range [of "example_agent (Dropout (1 / 2))" 2 1 0 example_rng "1 / 2"
        example_ensemble example_store 2 2]
      a e example_ensemble_wf example_agent_shapes example_ensemble_shapes
    by simp
qed

text \<open>
  Without these conditions \<^verbatim>\<open>pick_action\<close> returns no index: the annealing agent built
  with the default \<^verbatim>\<open>epsilon_param = 0.0\<close> divides by zero at \<open>t = 0\<close>, and an ensemble
  of no members asks \<^verbatim>\<open>rd.randint(0)\<close>.
\<close>

theorem pick_action_raises:
  "(case fst (init_agent (EpsilonGreedyAnnealing 0) 2 4 [[1, 0], [0, 1]] 3 1 1 (1 / 10) 1 64 1
              (1 / 100) example_rng) of
      Inl err \<Rightarrow> False
    | Inr a \<Rightarrow> actions a \<noteq> [] \<and> fst (agent_pick_action a 0 example_rng) = Inl ZeroDivisionError) \<and>
   (case fst (example_init 0) of
      Inl err \<Rightarrow> False
    | Inr (e, s) \<Rightarrow> actions e \<noteq> [] \<and> fst (ensemble_pick_action e s 0 example_rng) = Inl ValueError)"
  by (simp add: init_agent_def rd_randn_shape_def rd_randn_vec_def agent_pick_action_def
      annealing_pick_action_def example_init_def init_ensemble_def rd_randn_shape3_def
      new_array3_def new_array2_def ensemble_pick_action_def rd_randint_def)

end
